theory Spec2Isabelle
  imports Main "HOL-Library.Word" "HOL-Library.Log_Nat" "HOL-Library.Monad_Syntax"
begin

section \<open>Colour conversion of capture-final.c\<close>

subsection \<open>C arithmetic used by the converter\<close>

type_synonym byte = "8 word"

text \<open>Undefined behaviour of the C program is a value of the model.\<close>

datatype fault = SignedOverflow | OutOfBounds

definition INT_MAX :: int where
  "INT_MAX = 2147483647"

definition INT_MIN :: int where
  "INT_MIN = - 2147483648"

definition in_int_range :: "int \<Rightarrow> bool" where
  "in_int_range x = (INT_MIN \<le> x \<and> x \<le> INT_MAX)"

text \<open>
  The channel formulas are evaluated in \<^verbatim>\<open>double\<close>. A double is modelled by the
  rational number it denotes. Every operation rounds its exact result to 53 significant
  bits, ties to even (IEEE 754 binary64, round to nearest; every value met in the
  converter is a multiple of \<open>2 powi (- 54)\<close> of magnitude below \<open>1024\<close>, so neither
  subnormal numbers nor overflow occur), and each operation is rounded on its own (no
  fused multiply-add).
\<close>

definition ilog2 :: "rat \<Rightarrow> int" where
  "ilog2 x = (case quotient_of x of (p, q) \<Rightarrow>
     let d = bitlen \<bar>p\<bar> - bitlen q in if 2 powi d \<le> \<bar>x\<bar> then d else d - 1)"

definition round_half_even :: "rat \<Rightarrow> int" where
  "round_half_even r = (let f = \<lfloor>r\<rfloor>; d = r - of_int f in
     if d < 1 / 2 then f else if 1 / 2 < d then f + 1 else if even f then f else f + 1)"

definition rnd64 :: "rat \<Rightarrow> rat" where
  "rnd64 x = (if x = 0 then 0
     else let s = 2 powi (ilog2 x - 52) in of_int (round_half_even (x / s)) * s)"

definition dmul :: "rat \<Rightarrow> rat \<Rightarrow> rat" where
  "dmul a b = rnd64 (a * b)"

definition dadd :: "rat \<Rightarrow> rat \<Rightarrow> rat" where
  "dadd a b = rnd64 (a + b)"

definition dsub :: "rat \<Rightarrow> rat \<Rightarrow> rat" where
  "dsub a b = rnd64 (a - b)"

text \<open>Conversion of a double to \<^verbatim>\<open>int\<close> discards the fractional part.\<close>

definition d2i :: "rat \<Rightarrow> int" where
  "d2i x = (if 0 \<le> x then \<lfloor>x\<rfloor> else \<lceil>x\<rceil>)"

subsection \<open>clamp and yuyv_to_rgb\<close>

definition clamp :: "int \<Rightarrow> byte" where
  "clamp v = (if v < 0 then 0 else (if v > 255 then 255 else word_of_int v))"

text \<open>The three channel expressions, as the source writes them for both pixels of a group.\<close>

definition chan_r :: "int \<Rightarrow> int \<Rightarrow> int" where
  "chan_r y v = d2i (dadd (of_int y) (dmul (rnd64 1.402) (of_int v)))"

definition chan_g :: "int \<Rightarrow> int \<Rightarrow> int \<Rightarrow> int" where
  "chan_g y u v = d2i (dsub (dsub (of_int y) (dmul (rnd64 0.344136) (of_int u)))
                            (dmul (rnd64 0.714136) (of_int v)))"

definition chan_b :: "int \<Rightarrow> int \<Rightarrow> int" where
  "chan_b y u = d2i (dadd (of_int y) (dmul (rnd64 1.772) (of_int u)))"

text \<open>
  The loop of \<^verbatim>\<open>yuyv_to_rgb\<close>: \<open>bound\<close> is \<^verbatim>\<open>pixel_count * 2\<close>, \<open>i\<close> and \<open>j\<close> are the
  two indices. Reading or writing outside a buffer and overflowing an \<^verbatim>\<open>int\<close> index
  are faults.
\<close>

function yuyv_loop :: "byte list \<Rightarrow> int \<Rightarrow> int \<Rightarrow> int \<Rightarrow> byte list \<Rightarrow> fault + byte list" where
  "yuyv_loop yuyv bound i j rgb =
     (if i < bound then
        if i < 0 \<or> int (length yuyv) \<le> i + 3 then Inl OutOfBounds
        else if j < 0 \<or> int (length rgb) \<le> j + 5 then Inl OutOfBounds
        else
          let y0 = uint (yuyv ! nat i);
              u = uint (yuyv ! nat (i + 1)) - 128;
              y1 = uint (yuyv ! nat (i + 2));
              v = uint (yuyv ! nat (i + 3)) - 128;
              rgb' = rgb[nat j := clamp (chan_r y0 v),
                         nat (j + 1) := clamp (chan_g y0 u v),
                         nat (j + 2) := clamp (chan_b y0 u),
                         nat (j + 3) := clamp (chan_r y1 v),
                         nat (j + 4) := clamp (chan_g y1 u v),
                         nat (j + 5) := clamp (chan_b y1 u)]
          in if INT_MAX < i + 4 \<or> INT_MAX < j + 6 then Inl SignedOverflow
             else yuyv_loop yuyv bound (i + 4) (j + 6) rgb'
      else Inr rgb)"
  by pat_completeness auto
termination
  by (relation "measure (\<lambda>(yuyv, bound, i, j, rgb). nat (bound - i))") auto

declare yuyv_loop.simps [simp del]

definition yuyv_to_rgb :: "byte list \<Rightarrow> byte list \<Rightarrow> int \<Rightarrow> int \<Rightarrow> fault + byte list" where
  "yuyv_to_rgb yuyv rgb width height =
     (if \<not> in_int_range (width * height) then Inl SignedOverflow
      else let pixel_count = width * height in
        if \<not> in_int_range (pixel_count * 2) then Inl SignedOverflow
        else yuyv_loop yuyv (pixel_count * 2) 0 0 rgb)"

text \<open>
  Vocabulary for the statements below. Group \<open>k\<close> of the input is the four bytes
  \<open>[Y0, U, Y1, V]\<close> at offset \<open>4 * k\<close>; \<open>group_wide\<close> lists the six channel values
  the loop body computes from it, before clamping, and \<open>group_rgb\<close> the six bytes it
  stores. \<open>groups\<close> is the number of times the loop condition \<^verbatim>\<open>i < pixel_count * 2\<close>
  holds when \<open>i\<close> advances by 4 from 0.
\<close>

definition group_wide :: "byte list \<Rightarrow> nat \<Rightarrow> int list" where
  "group_wide yuyv k =
     (let y0 = uint (yuyv ! (4 * k));
          u = uint (yuyv ! (4 * k + 1)) - 128;
          y1 = uint (yuyv ! (4 * k + 2));
          v = uint (yuyv ! (4 * k + 3)) - 128
      in [chan_r y0 v, chan_g y0 u v, chan_b y0 u, chan_r y1 v, chan_g y1 u v, chan_b y1 u])"

definition group_rgb :: "byte list \<Rightarrow> nat \<Rightarrow> byte list" where
  "group_rgb yuyv k = map clamp (group_wide yuyv k)"

definition groups :: "int \<Rightarrow> int \<Rightarrow> nat" where
  "groups width height = nat ((width * height * 2 + 3) div 4)"

section \<open>The capture program of capture-final.c\<close>

definition WIDTH :: int where
  "WIDTH = 320"

definition HEIGHT :: int where
  "HEIGHT = 240"

definition QUALITY :: int where
  "QUALITY = 90"

definition EINTR :: int where
  "EINTR = 4"

subsection \<open>The device and what the program does to it\<close>

datatype request =
    VIDIOC_S_FMT | VIDIOC_REQBUFS | VIDIOC_QUERYBUF | VIDIOC_QBUF | VIDIOC_DQBUF
  | VIDIOC_STREAMON | VIDIOC_STREAMOFF

text \<open>
  The calls the program makes, in the order it makes them. \<open>Xioctl\<close> is one call of
  \<^verbatim>\<open>xioctl\<close>, however often it repeats the system call inside; \<open>Select\<close> carries the
  timeout \<^verbatim>\<open>tv_sec\<close>, \<^verbatim>\<open>tv_usec\<close>; \<open>Convert\<close> is the call of \<^verbatim>\<open>yuyv_to_rgb\<close> with the
  contents of the mapped buffer and the two dimensions; \<open>Write_jpg\<close> is the call of
  \<^verbatim>\<open>stbi_write_jpg\<close> with file name, width, height, channel count, pixel data and quality.
\<close>

datatype event =
    Open string
  | Xioctl request
  | Mmap
  | Select int int
  | Malloc int
  | Convert "byte list" int int
  | Write_jpg string int int int "byte list" int
  | Free
  | Close
  | Perror string
  | Printf string "int list"

text \<open>
  Everything the program learns from outside. \<open>ioctl_ret dev req k a\<close> is the return value
  and \<^verbatim>\<open>errno\<close> of attempt \<open>a\<close> of the system call inside the \<open>k\<close>-th call of \<^verbatim>\<open>xioctl\<close>
  with request \<open>req\<close>. A successful call that passes \<^verbatim>\<open>&buf\<close> writes the structure back:
  \<open>buf_bytesused dev req k\<close> is the \<^verbatim>\<open>bytesused\<close> field it leaves. \<open>frame dev k\<close> is what
  the mapped buffer holds after the \<open>k\<close>-th dequeue, \<open>mmap_ret\<close> what it holds when mapped
  (\<open>None\<close> is \<^verbatim>\<open>MAP_FAILED\<close>), \<open>select_ret dev i\<close> the result of the wait in iteration \<open>i\<close>,
  \<open>malloc_ret\<close> the initial contents of the allocated block (\<open>None\<close> is \<^verbatim>\<open>NULL\<close>).
\<close>

record device =
  open_ret :: int
  ioctl_ret :: "request \<Rightarrow> nat \<Rightarrow> nat \<Rightarrow> int \<times> int"
  buf_bytesused :: "request \<Rightarrow> nat \<Rightarrow> 32 word"
  frame :: "nat \<Rightarrow> byte list"
  mmap_ret :: "byte list option"
  select_ret :: "nat \<Rightarrow> int"
  malloc_ret :: "(nat \<Rightarrow> byte) option"
  stbi_write_jpg_ret :: int

record capture_state =
  bytesused :: "32 word"
  mapped :: "byte list"
  trace :: "event list"

definition emit :: "event \<Rightarrow> capture_state \<Rightarrow> capture_state" where
  "emit e s = s\<lparr>trace := trace s @ [e]\<rparr>"

text \<open>
  \<^verbatim>\<open>xioctl\<close> repeats the system call while it returns \<open>-1\<close> with \<^verbatim>\<open>errno == EINTR\<close>. It need
  not return: \<open>None\<close> is the call that is interrupted for ever.
\<close>

partial_function (option) xioctl_attempt :: "(nat \<Rightarrow> int \<times> int) \<Rightarrow> nat \<Rightarrow> int option" where
  "xioctl_attempt io a =
     (if fst (io a) = - 1 \<and> snd (io a) = EINTR then xioctl_attempt io (Suc a)
      else Some (fst (io a)))"

definition xioctl :: "device \<Rightarrow> request \<Rightarrow> nat \<Rightarrow> int option" where
  "xioctl dev req k = xioctl_attempt (ioctl_ret dev req k) 0"

definition fill_buf :: "device \<Rightarrow> request \<Rightarrow> nat \<Rightarrow> int \<Rightarrow> capture_state \<Rightarrow> capture_state" where
  "fill_buf dev req k r s = (if 0 \<le> r then s\<lparr>bytesused := buf_bytesused dev req k\<rparr> else s)"

definition dequeued :: "device \<Rightarrow> nat \<Rightarrow> int \<Rightarrow> capture_state \<Rightarrow> capture_state" where
  "dequeued dev k r s =
     (if 0 \<le> r then s\<lparr>bytesused := buf_bytesused dev VIDIOC_DQBUF k, mapped := frame dev k\<rparr>
      else s)"

text \<open>How a part of \<^verbatim>\<open>main\<close> ends: it falls through to the next part, \<^verbatim>\<open>main\<close> returns, or
  the behaviour is undefined.\<close>

datatype ctl = Next | Return int | Crash fault

subsection \<open>main\<close>

text \<open>Lines 73 to 104: open, set the format, request and map one buffer, queue it, stream on.\<close>

definition setup_stream :: "device \<Rightarrow> (ctl \<times> capture_state) option" where
  "setup_stream dev =
     (let s = emit (Open ''/dev/video0'') \<lparr>bytesused = 0, mapped = [], trace = []\<rparr> in
      if open_ret dev < 0 then Some (Return 1, emit (Perror ''Opening video0'') s)
      else do {
        r \<leftarrow> xioctl dev VIDIOC_S_FMT 0;
        let s = emit (Xioctl VIDIOC_S_FMT) s;
        if r < 0 then Some (Return 1, emit (Perror ''Setting Pixel Format'') s)
        else do {
          let s = emit (Printf ''Camera configured: %d x %d YUYV\<newline>'' [WIDTH, HEIGHT]) s;
          r \<leftarrow> xioctl dev VIDIOC_REQBUFS 0;
          let s = emit (Xioctl VIDIOC_REQBUFS) s;
          if r < 0 then Some (Return 1, emit (Perror ''Requesting Buffer'') s)
          else do {
            r \<leftarrow> xioctl dev VIDIOC_QUERYBUF 0;
            let s = fill_buf dev VIDIOC_QUERYBUF 0 r (emit (Xioctl VIDIOC_QUERYBUF) s);
            if r < 0 then Some (Return 1, emit (Perror ''Querying Buffer'') s)
            else
              let s = emit Mmap s in
              case mmap_ret dev of
                None \<Rightarrow> Some (Return 1, emit (Perror ''Mapping Buffer'') s)
              | Some mem \<Rightarrow> do {
                  let s = s\<lparr>mapped := mem\<rparr>;
                  r \<leftarrow> xioctl dev VIDIOC_QBUF 0;
                  let s = fill_buf dev VIDIOC_QBUF 0 r (emit (Xioctl VIDIOC_QBUF) s);
                  if r < 0 then Some (Return 1, emit (Perror ''Queueing Buffer'') s)
                  else do {
                    r \<leftarrow> xioctl dev VIDIOC_STREAMON 0;
                    let s = emit (Xioctl VIDIOC_STREAMON) s;
                    if r < 0 then Some (Return 1, emit (Perror ''Start Capture'') s)
                    else Some (Next, s)
                  }
                }
          }
        }
      })"

text \<open>
  Lines 106 to 116, the loop \<^verbatim>\<open>for(int i=0; i<10; i++)\<close> from iteration \<open>i\<close> on (the
  message printed before the loop is emitted by \<open>main\<close>). The results of both
  \<^verbatim>\<open>xioctl\<close> calls are discarded, as in the source. The requeue of iteration \<open>i\<close> is the
  \<open>(i + 1)\<close>-th \<^verbatim>\<open>VIDIOC_QBUF\<close> of the run, the first being the one of \<open>setup_stream\<close>.
\<close>

function warmup :: "device \<Rightarrow> nat \<Rightarrow> capture_state \<Rightarrow> (ctl \<times> capture_state) option" where
  "warmup dev i s =
     (if i < 10 then
        let s = emit (Select 2 0) s in
        if select_ret dev i \<le> 0 then
          Some (Return 1, emit (Perror ''Timeout waiting for frame'') s)
        else do {
          r \<leftarrow> xioctl dev VIDIOC_DQBUF i;
          let s = dequeued dev i r (emit (Xioctl VIDIOC_DQBUF) s);
          if i < 9 then do {
            r \<leftarrow> xioctl dev VIDIOC_QBUF (i + 1);
            let s = fill_buf dev VIDIOC_QBUF (i + 1) r (emit (Xioctl VIDIOC_QBUF) s);
            warmup dev (i + 1) s
          }
          else warmup dev (i + 1) s
        }
      else Some (Next, s))"
  by pat_completeness auto
termination
  by (relation "measure (\<lambda>(dev, i, s). 10 - i)") auto

declare warmup.simps [simp del]

text \<open>Lines 118 to 139: convert and encode the frame in the mapped buffer.\<close>

definition capture_final :: "device \<Rightarrow> capture_state \<Rightarrow> ctl \<times> capture_state" where
  "capture_final dev s =
     (if 0 < bytesused s then
        (let s = emit (Printf ''Captured Raw Frame: %d bytes. Converting...\<newline>''
                         [sint (bytesused s)]) s;
             s = emit (Malloc (WIDTH * HEIGHT * 3)) s
         in (case malloc_ret dev of
               None \<Rightarrow> (Return 1, emit (Perror ''Malloc failed'') s)
             | Some junk \<Rightarrow>
                 (let rgb_data = map junk [0..<nat (WIDTH * HEIGHT * 3)];
                      s = emit (Convert (mapped s) WIDTH HEIGHT) s
                  in (case yuyv_to_rgb (mapped s) rgb_data WIDTH HEIGHT of
                        Inl f \<Rightarrow> (Crash f, s)
                      | Inr rgb_data \<Rightarrow>
                          (let s = emit (Write_jpg ''image.jpg'' WIDTH HEIGHT 3 rgb_data QUALITY) s;
                               s = (if stbi_write_jpg_ret dev \<noteq> 0
                                    then emit (Printf ''Success! Saved as image.jpg\<newline>'' []) s
                                    else emit (Printf ''Error: Failed to write JPEG file.\<newline>'' []) s)
                           in (Next, emit Free s))))))
      else (Next, emit (Printf ''Error: Captured 0 bytes\<newline>'' []) s))"

text \<open>Lines 141 to 144.\<close>

definition cleanup :: "device \<Rightarrow> capture_state \<Rightarrow> (ctl \<times> capture_state) option" where
  "cleanup dev s = do {
     r \<leftarrow> xioctl dev VIDIOC_STREAMOFF 0;
     Some (Return 0, emit Close (emit (Xioctl VIDIOC_STREAMOFF) s))
   }"

definition main :: "device \<Rightarrow> (ctl \<times> capture_state) option" where
  "main dev = do {
     (c, s) \<leftarrow> setup_stream dev;
     case c of
       Next \<Rightarrow> do {
         (c, s) \<leftarrow> warmup dev 0 (emit (Printf ''Warming up camera...\<newline>'' []) s);
         case c of
           Next \<Rightarrow> (case capture_final dev s of
                      (Next, s) \<Rightarrow> cleanup dev s
                    | (c, s) \<Rightarrow> Some (c, s))
         | _ \<Rightarrow> Some (c, s)
       }
     | _ \<Rightarrow> Some (c, s)
   }"

subsection \<open>Vocabulary for the statements about the capture program\<close>

text \<open>The calls of a \<open>setup_stream\<close> that succeeds, and of iteration \<open>i\<close> of the loop when
  its wait succeeds.\<close>

definition setup_events :: "event list" where
  "setup_events =
     [Open ''/dev/video0'', Xioctl VIDIOC_S_FMT,
      Printf ''Camera configured: %d x %d YUYV\<newline>'' [WIDTH, HEIGHT],
      Xioctl VIDIOC_REQBUFS, Xioctl VIDIOC_QUERYBUF, Mmap, Xioctl VIDIOC_QBUF,
      Xioctl VIDIOC_STREAMON]"

definition iteration_events :: "nat \<Rightarrow> event list" where
  "iteration_events i =
     [Select 2 0, Xioctl VIDIOC_DQBUF] @ (if i < 9 then [Xioctl VIDIOC_QBUF] else [])"

definition warming_up :: event where
  "warming_up = Printf ''Warming up camera...\<newline>'' []"

fun is_convert :: "event \<Rightarrow> bool" where
  "is_convert (Convert yuyv w h) = True"
| "is_convert _ = False"

fun is_write_jpg :: "event \<Rightarrow> bool" where
  "is_write_jpg (Write_jpg name w h n rgb q) = True"
| "is_write_jpg _ = False"

text \<open>The number of dequeues in a trace, and of queue calls after the one that starts the
  stream.\<close>

definition dequeues :: "event list \<Rightarrow> nat" where
  "dequeues es = length (filter (\<lambda>e. e = Xioctl VIDIOC_DQBUF) es)"

definition requeues :: "event list \<Rightarrow> nat" where
  "requeues es =
     length (filter (\<lambda>e. e = Xioctl VIDIOC_QBUF) (dropWhile (\<lambda>e. e \<noteq> Xioctl VIDIOC_STREAMON) es))"

text \<open>
  Cameras for the concrete runs below. Every system call of \<open>good_camera\<close>
  succeeds at once and it delivers full frames of \<open>320 * 240 * 2\<close> bytes.
  \<open>stalled_camera\<close> differs in that no frame ever becomes ready, \<open>third_wait_camera\<close> in
  that the third wait times out, \<open>empty_frame_camera\<close> in that every frame is reported
  with zero bytes used, \<open>broken_encoder_camera\<close> in that the JPEG writer fails, \<open>failing_camera\<close> in that every dequeue and every requeue fails
  with \<^verbatim>\<open>EIO\<close> and no byte count is ever reported.
\<close>

definition good_camera :: device where
  "good_camera =
     \<lparr>open_ret = 3, ioctl_ret = (\<lambda>req k a. (0, 0)), buf_bytesused = (\<lambda>req k. 153600),
      frame = (\<lambda>k. replicate 153600 (of_nat k)), mmap_ret = Some (replicate 153600 0),
      select_ret = (\<lambda>i. 1), malloc_ret = Some (\<lambda>n. 0), stbi_write_jpg_ret = 1\<rparr>"

definition stalled_camera :: device where
  "stalled_camera = good_camera\<lparr>select_ret := (\<lambda>i. 0)\<rparr>"

definition third_wait_camera :: device where
  "third_wait_camera = good_camera\<lparr>select_ret := (\<lambda>i. if i = 2 then 0 else 1)\<rparr>"

definition empty_frame_camera :: device where
  "empty_frame_camera = good_camera\<lparr>buf_bytesused := (\<lambda>req k. 0)\<rparr>"

definition broken_encoder_camera :: device where
  "broken_encoder_camera = good_camera\<lparr>stbi_write_jpg_ret := 0\<rparr>"

definition failing_camera :: device where
  "failing_camera =
     good_camera\<lparr>ioctl_ret := (\<lambda>req k a. if req = VIDIOC_DQBUF \<or> (req = VIDIOC_QBUF \<and> 0 < k)
                                          then (- 1, 5) else (0, 0)),
                  buf_bytesused := (\<lambda>req k. 0)\<rparr>"

section \<open>The serial command program of serial_pwm.c\<close>

definition PWM_CHIP_PATH :: string where
  "PWM_CHIP_PATH = ''/sys/class/pwm/pwmchip0''"

definition PWM_CHANNEL :: int where
  "PWM_CHANNEL = 0"

definition PWM_PERIOD_NS :: int where
  "PWM_PERIOD_NS = 1000000"

definition PWM_DUTY_NS :: int where
  "PWM_DUTY_NS = 500000"

definition EBUSY :: int where
  "EBUSY = 16"

text \<open>The text \<^verbatim>\<open>snprintf\<close> produces for \<^verbatim>\<open>%d\<close>.\<close>

fun digits :: "nat \<Rightarrow> string" where
  "digits n = (if n < 10 then [''0123456789'' ! n]
               else digits (n div 10) @ [''0123456789'' ! (n mod 10)])"

declare digits.simps [simp del]

definition show_int :: "int \<Rightarrow> string" where
  "show_int n = (if n < 0 then CHR ''-'' # digits (nat (- n)) else digits (nat n))"

subsection \<open>The sysfs files and the console\<close>

datatype arg = Str string | Num int | Strerror int

text \<open>
  What the program does, in order: \<open>Pwm_write_file\<close> is one call of \<^verbatim>\<open>pwm_write_file\<close>
  with its two arguments, \<open>Out\<close> a \<^verbatim>\<open>printf\<close> and \<open>Err\<close> an \<^verbatim>\<open>fprintf(stderr, ...)\<close> with
  format and arguments.
\<close>

datatype sevent =
    Pwm_write_file string string
  | Out string "arg list"
  | Err string "arg list"
  | Putchar char
  | Fflush
  | Usleep int
  | Perror_s string
  | Open_serial string
  | Set_speed int
  | Tcflush
  | Close_serial

text \<open>What the \<open>k\<close>-th call of \<^verbatim>\<open>pwm_write_file\<close> meets: \<^verbatim>\<open>open\<close> fails with an
  \<^verbatim>\<open>errno\<close>, \<^verbatim>\<open>write\<close> fails with an \<^verbatim>\<open>errno\<close>, or the value is written.\<close>

datatype fs_result = Open_fails int | Write_fails int | Written

text \<open>\<open>files\<close> maps the path of a sysfs attribute to the value last written to it.\<close>

record pwm_state =
  files :: "string \<rightharpoonup> string"
  calls :: nat
  acts :: "sevent list"

definition say :: "sevent \<Rightarrow> pwm_state \<Rightarrow> pwm_state" where
  "say e s = s\<lparr>acts := acts s @ [e]\<rparr>"

subsection \<open>The PWM helpers\<close>

definition pwm_path :: "string \<Rightarrow> string" where
  "pwm_path filename =
     take 255 (if filename = ''export'' \<or> filename = ''unexport''
               then PWM_CHIP_PATH @ ''/'' @ filename
               else PWM_CHIP_PATH @ ''/pwm'' @ show_int PWM_CHANNEL @ ''/'' @ filename)"

definition pwm_write_file ::
  "(nat \<Rightarrow> fs_result) \<Rightarrow> string \<Rightarrow> string \<Rightarrow> pwm_state \<Rightarrow> int \<times> pwm_state" where
  "pwm_write_file sysfs filename val s =
     (let path = pwm_path filename;
          s' = say (Pwm_write_file filename val) (s\<lparr>calls := calls s + 1\<rparr>)
      in case sysfs (calls s) of
           Open_fails errno \<Rightarrow>
             if errno = EBUSY \<and> filename = ''export'' then (0, s')
             else (- 1, say (Err ''Error opening %s: %s\<newline>'' [Str path, Strerror errno]) s')
         | Write_fails errno \<Rightarrow>
             (- 1, say (Err ''Error writing to %s: %s\<newline>'' [Str path, Strerror errno]) s')
         | Written \<Rightarrow> (0, s'\<lparr>files := (files s')(path \<mapsto> val)\<rparr>))"

definition pwm_init :: "(nat \<Rightarrow> fs_result) \<Rightarrow> pwm_state \<Rightarrow> int \<times> pwm_state" where
  "pwm_init sysfs s =
     (let s = say (Out ''Initializing PWM %d...\<newline>'' [Num PWM_CHANNEL]) s;
          (r, s) = pwm_write_file sysfs ''export'' (show_int PWM_CHANNEL) s;
          s = say (Usleep 100000) s;
          (r, s) = pwm_write_file sysfs ''period'' (show_int PWM_PERIOD_NS) s
      in if r \<noteq> 0 then (- 1, s)
         else
           (let (r, s) = pwm_write_file sysfs ''duty_cycle'' (show_int PWM_DUTY_NS) s
            in if r \<noteq> 0 then (- 1, s)
               else
                 (let (r, s) = pwm_write_file sysfs ''enable'' ''0'' s;
                      s = say (Out ''PWM Initialized (Period: %dns, Duty: %dns)\<newline>''
                                 [Num PWM_PERIOD_NS, Num PWM_DUTY_NS]) s
                  in (0, s))))"

definition pwm_control :: "(nat \<Rightarrow> fs_result) \<Rightarrow> int \<Rightarrow> pwm_state \<Rightarrow> pwm_state" where
  "pwm_control sysfs state s =
     (if state \<noteq> 0 then
        snd (pwm_write_file sysfs ''enable'' ''1''
               (say (Out (CHR 0x0A # ''---> [COMMAND] 'A' Received: PWM STARTED\<newline>'') []) s))
      else
        snd (pwm_write_file sysfs ''enable'' ''0''
               (say (Out (CHR 0x0A # ''---> [COMMAND] 'B' Received: PWM STOPPED\<newline>'') []) s)))"

subsection \<open>The serial port and the command loop\<close>

text \<open>\<^verbatim>\<open>isprint\<close> in the C locale (the program never calls \<^verbatim>\<open>setlocale\<close>).\<close>

definition isprint :: "char \<Rightarrow> bool" where
  "isprint c = (32 \<le> (of_char c :: nat) \<and> (of_char c :: nat) \<le> 126)"

text \<open>The body of the \<^verbatim>\<open>for\<close> loop, lines 195 to 213, for the byte \<open>c\<close>.\<close>

definition process_byte :: "(nat \<Rightarrow> fs_result) \<Rightarrow> char \<Rightarrow> pwm_state \<Rightarrow> pwm_state" where
  "process_byte sysfs c s =
     (let s = (if c = CHR ''A'' \<or> c = CHR ''a'' then pwm_control sysfs 1 s
               else if c = CHR ''B'' \<or> c = CHR ''b'' then pwm_control sysfs 0 s
               else s)
      in if isprint c \<or> c = CHR 0x0A \<or> c = CHR 0x0D \<or> c = CHR 0x09
         then say Fflush (say (Putchar c) s)
         else say Fflush (say (Out ''[0x%02X]'' [Num (of_char c)]) s))"

text \<open>The \<^verbatim>\<open>for\<close> loop over the \<open>n\<close> bytes one \<^verbatim>\<open>read\<close> returned.\<close>

fun process_bytes :: "(nat \<Rightarrow> fs_result) \<Rightarrow> char list \<Rightarrow> pwm_state \<Rightarrow> pwm_state" where
  "process_bytes sysfs [] s = s"
| "process_bytes sysfs (c # cs) s = process_bytes sysfs cs (process_byte sysfs c s)"

text \<open>
  One \<^verbatim>\<open>read\<close>: an error with its \<^verbatim>\<open>errno\<close>, or the bytes it stored in \<^verbatim>\<open>buf\<close>
  (none when it returned 0).
\<close>

datatype read_result = Read_error int | Read_bytes "char list"

text \<open>
  The \<^verbatim>\<open>while (keep_running)\<close> loop. Each element of the script is one evaluation of the
  loop condition (the value of \<^verbatim>\<open>keep_running\<close>, which a signal clears) and the result of
  the \<^verbatim>\<open>read\<close> that follows it. The loop has no bound of its own: the result is \<open>True\<close>
  when the loop was left and \<open>False\<close> when the script ended with the loop still running.
\<close>

fun serial_loop ::
  "(nat \<Rightarrow> fs_result) \<Rightarrow> (bool \<times> read_result) list \<Rightarrow> pwm_state \<Rightarrow> bool \<times> pwm_state" where
  "serial_loop sysfs [] s = (False, s)"
| "serial_loop sysfs ((keep_running, rd) # rest) s =
     (if \<not> keep_running then (True, s)
      else (case rd of
              Read_error errno \<Rightarrow>
                if errno = EINTR then serial_loop sysfs rest s
                else (True, say (Perror_s ''read'') s)
            | Read_bytes bs \<Rightarrow>
                if bs = [] then serial_loop sysfs rest s
                else serial_loop sysfs rest (process_bytes sysfs bs s)))"

text \<open>
  The world of \<^verbatim>\<open>main\<close>: the sysfs files before the run and the result of each
  \<^verbatim>\<open>pwm_write_file\<close>, the results of opening and configuring the serial port, and the
  script of the read loop.
\<close>

record serial_env =
  sysfs_before :: "string \<rightharpoonup> string"
  sysfs :: "nat \<Rightarrow> fs_result"
  serial_open_ret :: int
  serial_open_errno :: int
  tcgetattr_ret :: int
  tcsetattr_ret :: int
  script :: "(bool \<times> read_result) list"

text \<open>\<^verbatim>\<open>configure_serial\<close>; the flag words of the \<^verbatim>\<open>termios\<close> structure are not modelled.\<close>

definition configure_serial :: "serial_env \<Rightarrow> int \<Rightarrow> pwm_state \<Rightarrow> int \<times> pwm_state" where
  "configure_serial env baud s =
     (if tcgetattr_ret env \<noteq> 0 then (- 1, say (Perror_s ''tcgetattr'') s)
      else
        (let (speed, s) =
               (if baud = 9600 then (9600, s)
                else if baud = 19200 then (19200, s)
                else if baud = 38400 then (38400, s)
                else if baud = 115200 then (115200, s)
                else (9600, say (Err ''Unsupported baud %d, using 9600\<newline>'' [Num baud]) s));
             s = say (Set_speed speed) s
         in if tcsetattr_ret env \<noteq> 0 then (- 1, say (Perror_s ''tcsetattr'') s)
            else (0, say Tcflush s)))"

text \<open>
  How \<^verbatim>\<open>main\<close> ends: with an exit status, or still in the read loop at the end of the
  script.
\<close>

datatype ending = Exited int | Running

text \<open>
  \<^verbatim>\<open>main\<close>. \<open>dev_arg\<close> is \<^verbatim>\<open>argv[1]\<close> when given and \<open>baud_arg\<close> the value of
  \<^verbatim>\<open>atoi(argv[2])\<close> when given.
\<close>

definition serial_main ::
  "serial_env \<Rightarrow> string option \<Rightarrow> int option \<Rightarrow> ending \<times> pwm_state" where
  "serial_main env dev_arg baud_arg =
     (let dev = (case dev_arg of None \<Rightarrow> ''/dev/ttyS0'' | Some d \<Rightarrow> d);
          baud = (case dev_arg of None \<Rightarrow> 9600
                  | Some d \<Rightarrow> (case baud_arg of None \<Rightarrow> 9600 | Some b \<Rightarrow> b));
          (r, s) = pwm_init (sysfs env) \<lparr>files = sysfs_before env, calls = 0, acts = []\<rparr>;
          s = (if r \<noteq> 0
               then say (Err ''WARNING: PWM setup failed. Continuing in monitor-only mode.\<newline>'' []) s
               else s);
          s = say (Out ''Opening serial device: %s at %d baud\<newline>'' [Str dev, Num baud]) s;
          s = say (Open_serial dev) s
      in if serial_open_ret env < 0
         then (Exited 2, say (Err ''ERROR: cannot open %s: %s\<newline>'' [Str dev, Strerror (serial_open_errno env)]) s)
         else
           (let (r, s) = configure_serial env baud s
            in if r \<noteq> 0
               then (Exited 3,
                     say Close_serial (say (Err ''ERROR: failed to configure serial port\<newline>'' []) s))
               else
                 (let s = say (Out ''Listening... (Press 'A' to Start PWM, 'B' to Stop PWM)\<newline>'' []) s;
                      (left, s) = serial_loop (sysfs env) (script env) s
                  in if left
                     then (Exited 0, say Close_serial (say (Out (CHR 0x0A # ''Exiting %s\<newline>'') [Str dev]) s))
                     else (Running, s))))"

text \<open>Vocabulary for the statements about the serial program.\<close>

text \<open>The requests the motor receives: \<open>True\<close> for a write of \<^verbatim>\<open>"1"\<close> to \<^verbatim>\<open>enable\<close>,
  \<open>False\<close> for a write of any other value to it.\<close>

fun enable_of :: "sevent \<Rightarrow> bool option" where
  "enable_of (Pwm_write_file f v) = (if f = ''enable'' then Some (v = ''1'') else None)"
| "enable_of _ = None"

definition motor_cmds :: "sevent list \<Rightarrow> bool list" where
  "motor_cmds es = List.map_filter enable_of es"

text \<open>The echo of a byte on the console, and the events that are echoes.\<close>

definition echo_of :: "char \<Rightarrow> sevent" where
  "echo_of c = (if isprint c \<or> c = CHR 0x0A \<or> c = CHR 0x0D \<or> c = CHR 0x09 then Putchar c
                else Out ''[0x%02X]'' [Num (of_char c)])"

fun is_echo :: "sevent \<Rightarrow> bool" where
  "is_echo (Putchar c) = True"
| "is_echo (Out f as) = (f = ''[0x%02X]'')"
| "is_echo _ = False"

text \<open>The bytes the read loop hands to the \<^verbatim>\<open>for\<close> loop, in order.\<close>

fun received :: "(bool \<times> read_result) list \<Rightarrow> char list" where
  "received [] = []"
| "received ((keep_running, rd) # rest) =
     (if \<not> keep_running then []
      else (case rd of
              Read_error errno \<Rightarrow> if errno = EINTR then received rest else []
            | Read_bytes bs \<Rightarrow> bs @ received rest))"

definition enable_path :: string where
  "enable_path = ''/sys/class/pwm/pwmchip0/pwm0/enable''"

text \<open>The calls of \<^verbatim>\<open>pwm_write_file\<close> in a list of events, as pairs of file name and value.\<close>

fun write_of :: "sevent \<Rightarrow> (string \<times> string) option" where
  "write_of (Pwm_write_file f v) = Some (f, v)"
| "write_of _ = None"

text \<open>
  Worlds for the concrete runs below. In \<open>stuck_enable\<close> the fourth call of
  \<^verbatim>\<open>pwm_write_file\<close>, the one that writes \<^verbatim>\<open>enable\<close> in \<^verbatim>\<open>pwm_init\<close>, fails in \<^verbatim>\<open>write\<close>
  (\<^verbatim>\<open>EIO\<close>); every other call writes. \<open>left_enabled\<close> is a PWM channel that an earlier
  run left enabled, as the program does at exit. In \<open>all_written\<close> every call writes.
\<close>

definition stuck_enable :: "nat \<Rightarrow> fs_result" where
  "stuck_enable k = (if k = 3 then Write_fails 5 else Written)"

definition all_written :: "nat \<Rightarrow> fs_result" where
  "all_written k = Written"

definition left_enabled :: pwm_state where
  "left_enabled = \<lparr>files = [enable_path \<mapsto> ''1''], calls = 0, acts = []\<rparr>"

definition quiet_line :: serial_env where
  "quiet_line =
     \<lparr>sysfs_before = [enable_path \<mapsto> ''1''], sysfs = all_written, serial_open_ret = 3,
      serial_open_errno = 0, tcgetattr_ret = 0, tcsetattr_ret = 0,
      script = [(True, Read_bytes ''xA1''), (True, Read_error 4), (True, Read_bytes ''Bz''),
                (False, Read_bytes [])]\<rparr>"

section \<open>Properties of the colour conversion\<close>

subsection \<open>The loop, one group at a time\<close>

lemma length_group_rgb: "length (group_rgb yuyv k) = 6"
  by (simp add: group_rgb_def group_wide_def Let_def)

lemma list_update6:
  assumes "j + 6 \<le> length xs"
  shows "xs[j := a, j + 1 := b, j + 2 := c, j + 3 := d, j + 4 := e, j + 5 := f]
         = take j xs @ [a, b, c, d, e, f] @ drop (j + 6) xs"
proof (rule nth_equalityI)
  show "length (xs[j := a, j + 1 := b, j + 2 := c, j + 3 := d, j + 4 := e, j + 5 := f])
        = length (take j xs @ [a, b, c, d, e, f] @ drop (j + 6) xs)"
    using assms by simp
next
  fix i
  assume "i < length (xs[j := a, j + 1 := b, j + 2 := c, j + 3 := d, j + 4 := e, j + 5 := f])"
  then have i: "i < length xs" by simp
  consider "i < j" | "i = j" | "i = j + 1" | "i = j + 2" | "i = j + 3" | "i = j + 4"
    | "i = j + 5" | "j + 6 \<le> i" by linarith
  then show "xs[j := a, j + 1 := b, j + 2 := c, j + 3 := d, j + 4 := e, j + 5 := f] ! i
        = (take j xs @ [a, b, c, d, e, f] @ drop (j + 6) xs) ! i"
  proof cases
    case 8
    then obtain m where m: "i = j + 6 + m" using le_Suc_ex by blast
    show ?thesis using assms i unfolding m
      by (simp add: nth_append)
  qed (use assms i in \<open>simp_all add: nth_append\<close>)
qed

lemma yuyv_loop_step:
  assumes "4 * a + 4 \<le> length yuyv" "6 * a + 6 \<le> length rgb" "int (6 * a + 6) \<le> INT_MAX"
    and "4 * int a < bound"
  shows "yuyv_loop yuyv bound (4 * int a) (6 * int a) rgb =
         yuyv_loop yuyv bound (4 * int (Suc a)) (6 * int (Suc a))
           (take (6 * a) rgb @ group_rgb yuyv a @ drop (6 * a + 6) rgb)"
proof -
  have n: "nat (4 * int a) = 4 * a" "nat (4 * int a + 1) = 4 * a + 1"
    "nat (4 * int a + 2) = 4 * a + 2" "nat (4 * int a + 3) = 4 * a + 3"
    "nat (6 * int a) = 6 * a" "nat (6 * int a + 1) = 6 * a + 1"
    "nat (6 * int a + 2) = 6 * a + 2" "nat (6 * int a + 3) = 6 * a + 3"
    "nat (6 * int a + 4) = 6 * a + 4" "nat (6 * int a + 5) = 6 * a + 5"
    by linarith+
  have ov: "\<not> (INT_MAX < 4 * int a + 4 \<or> INT_MAX < 6 * int a + 6)"
    using assms(3) by linarith
  have ib: "\<not> (4 * int a < 0 \<or> int (length yuyv) \<le> 4 * int a + 3)"
    "\<not> (6 * int a < 0 \<or> int (length rgb) \<le> 6 * int a + 5)"
    using assms(1,2) by linarith+
  have s: "4 * int (Suc a) = 4 * int a + 4" "6 * int (Suc a) = 6 * int a + 6" by simp_all
  show ?thesis
    apply (subst yuyv_loop.simps)
    apply (simp only: assms(4) ov ib if_True if_False Let_def n s)
    apply (simp only: list_update6 [OF assms(2)] group_rgb_def group_wide_def Let_def list.map)
    done
qed

text \<open>A call that returns without fault met the conditions of one regular step.\<close>

lemma yuyv_loop_no_fault:
  assumes "yuyv_loop yuyv bound (4 * int a) (6 * int a) rgb = Inr out" "4 * int a < bound"
  shows "4 * a + 4 \<le> length yuyv \<and> 6 * a + 6 \<le> length rgb \<and> int (6 * a + 6) \<le> INT_MAX"
proof -
  let ?c1 = "4 * int a < 0 \<or> int (length yuyv) \<le> 4 * int a + 3"
  let ?c2 = "6 * int a < 0 \<or> int (length rgb) \<le> 6 * int a + 5"
  let ?c3 = "INT_MAX < 4 * int a + 4 \<or> INT_MAX < 6 * int a + 6"
  have c1: "\<not> ?c1"
  proof
    assume ?c1
    then have "yuyv_loop yuyv bound (4 * int a) (6 * int a) rgb = Inl OutOfBounds"
      by (subst yuyv_loop.simps) (simp only: assms(2) if_True)
    with assms(1) show False by simp
  qed
  have c2: "\<not> ?c2"
  proof
    assume ?c2
    then have "yuyv_loop yuyv bound (4 * int a) (6 * int a) rgb = Inl OutOfBounds"
      by (subst yuyv_loop.simps) (simp only: assms(2) c1 if_True if_False)
    with assms(1) show False by simp
  qed
  have c3: "\<not> ?c3"
  proof
    assume ?c3
    then have "yuyv_loop yuyv bound (4 * int a) (6 * int a) rgb = Inl SignedOverflow"
      by (subst yuyv_loop.simps) (simp only: assms(2) c1 c2 if_True if_False Let_def)
    with assms(1) show False by simp
  qed
  from c1 c2 c3 show ?thesis by linarith
qed

lemma yuyv_loop_result:
  assumes "yuyv_loop yuyv bound (4 * int a) (6 * int a) rgb = Inr out"
    and "n = nat ((bound - 4 * int a + 3) div 4)"
    and "6 * a \<le> length rgb" "4 * a \<le> length yuyv"
  shows "out = take (6 * a) rgb @ concat (map (group_rgb yuyv) [a..<a + n]) @ drop (6 * (a + n)) rgb
         \<and> 6 * (a + n) \<le> length rgb \<and> 4 * (a + n) \<le> length yuyv"
  using assms
proof (induction n arbitrary: a rgb)
  case 0
  then have "\<not> 4 * int a < bound" by linarith
  with "0.prems"(1) have "out = rgb" by (subst (asm) yuyv_loop.simps) simp
  with "0.prems"(3,4) show ?case by simp
next
  case (Suc n)
  let ?rgb' = "take (6 * a) rgb @ group_rgb yuyv a @ drop (6 * a + 6) rgb"
  from Suc.prems(2) have lt: "4 * int a < bound" by linarith
  note nf = yuyv_loop_no_fault [OF Suc.prems(1) lt]
  have len: "length ?rgb' = length rgb"
    using nf by (simp add: length_group_rgb)
  have step: "yuyv_loop yuyv bound (4 * int (Suc a)) (6 * int (Suc a)) ?rgb' = Inr out"
    using yuyv_loop_step [of a yuyv rgb bound] nf lt Suc.prems(1) by simp
  have n: "n = nat ((bound - 4 * int (Suc a) + 3) div 4)"
    using Suc.prems(2) by simp
  have ih: "out = take (6 * Suc a) ?rgb' @ concat (map (group_rgb yuyv) [Suc a..<Suc a + n])
           @ drop (6 * (Suc a + n)) ?rgb'
         \<and> 6 * (Suc a + n) \<le> length ?rgb' \<and> 4 * (Suc a + n) \<le> length yuyv"
    using nf by (intro Suc.IH [OF step n]) (simp_all add: length_group_rgb)
  note ih = ih [unfolded len]
  have t: "take (6 * Suc a) ?rgb' = take (6 * a) rgb @ group_rgb yuyv a"
    using nf by (simp add: length_group_rgb min_def)
  have d: "drop (6 * (Suc a + n)) ?rgb' = drop (6 * (a + Suc n)) rgb"
    using nf by (simp add: length_group_rgb min_def add.commute add.left_commute)
  have u: "[a..<a + Suc n] = a # [Suc a..<Suc a + n]"
    by (simp add: upt_conv_Cons)
  from ih have "out = (take (6 * a) rgb @ group_rgb yuyv a)
      @ concat (map (group_rgb yuyv) [Suc a..<Suc a + n]) @ drop (6 * (a + Suc n)) rgb"
    by (simp only: t d)
  moreover from ih have "6 * (a + Suc n) \<le> length rgb \<and> 4 * (a + Suc n) \<le> length yuyv"
    by simp
  ultimately show ?case
    unfolding u by simp
qed

lemma yuyv_to_rgb_result:
  assumes "yuyv_to_rgb yuyv rgb width height = Inr out"
  shows "out = concat (map (group_rgb yuyv) [0..<groups width height])
               @ drop (6 * groups width height) rgb
         \<and> 6 * groups width height \<le> length rgb \<and> 4 * groups width height \<le> length yuyv"
proof -
  from assms have l: "yuyv_loop yuyv (width * height * 2) (4 * int 0) (6 * int 0) rgb = Inr out"
    by (simp add: yuyv_to_rgb_def Let_def split: if_splits)
  have n: "groups width height = nat ((width * height * 2 - 4 * int 0 + 3) div 4)"
    by (simp add: groups_def)
  show ?thesis
    using yuyv_loop_result [OF l n] by simp
qed

lemma yuyv_loop_groups:
  assumes "4 * (a + n) \<le> length yuyv" "6 * (a + n) \<le> length rgb" "int (6 * (a + n)) \<le> INT_MAX"
    and "bound \<le> 4 * int (a + n)" "4 * int (a + n) < bound + 4"
  shows "\<exists>out. yuyv_loop yuyv bound (4 * int a) (6 * int a) rgb = Inr out"
  using assms
proof (induction n arbitrary: a rgb)
  case 0
  show ?case using "0.prems"(4) by (subst yuyv_loop.simps) simp
next
  case (Suc n)
  let ?rgb' = "take (6 * a) rgb @ group_rgb yuyv a @ drop (6 * a + 6) rgb"
  have len: "length ?rgb' = length rgb"
    using Suc.prems(2) by (simp add: length_group_rgb)
  have step: "yuyv_loop yuyv bound (4 * int a) (6 * int a) rgb =
      yuyv_loop yuyv bound (4 * int (Suc a)) (6 * int (Suc a)) ?rgb'"
    using Suc.prems by (intro yuyv_loop_step) simp_all
  have "\<exists>out. yuyv_loop yuyv bound (4 * int (Suc a)) (6 * int (Suc a)) ?rgb' = Inr out"
    using Suc.prems len by (intro Suc.IH) simp_all
  then show ?case unfolding step .
qed

lemma yuyv_to_rgb_returns:
  assumes "4 * groups width height \<le> length yuyv" "6 * groups width height \<le> length rgb"
    and "int (6 * groups width height) \<le> INT_MAX" "0 \<le> width * height"
  shows "\<exists>out. yuyv_to_rgb yuyv rgb width height = Inr out"
proof -
  let ?n = "groups width height"
  define p where "p = width * height"
  have "0 \<le> p" using assms(4) by (simp add: p_def)
  then have "p * 2 \<le> 4 * int (nat ((p * 2 + 3) div 4))"
    "4 * int (nat ((p * 2 + 3) div 4)) < p * 2 + 4" by linarith+
  then have b: "width * height * 2 \<le> 4 * int ?n" "4 * int ?n < width * height * 2 + 4"
    by (simp_all add: groups_def p_def)
  have "p * 2 \<le> 4 * int ?n" "0 \<le> p" "int (6 * ?n) \<le> INT_MAX"
    using b assms(3,4) by (simp_all add: p_def)
  then have "in_int_range p" "in_int_range (p * 2)"
    unfolding in_int_range_def INT_MAX_def INT_MIN_def by linarith+
  then have r: "in_int_range (width * height)" "in_int_range (width * height * 2)"
    by (simp_all add: p_def)
  have "\<exists>out. yuyv_loop yuyv (width * height * 2) (4 * int 0) (6 * int 0) rgb = Inr out"
    using assms b by (intro yuyv_loop_groups [where n = ?n]) simp_all
  then show ?thesis
    using r by (simp add: yuyv_to_rgb_def Let_def)
qed

subsection \<open>Slices of the output\<close>

lemma concat_groups_length:
  assumes "\<And>k. length (f k) = 6"
  shows "length (concat (map f [0..<m])) = 6 * m"
  by (induction m) (simp_all add: assms)

lemma concat_groups_nth:
  assumes "\<And>k. length (f k) = 6" "n < 6 * m"
  shows "concat (map f [0..<m]) ! n = f (n div 6) ! (n mod 6)"
  using assms(2)
proof (induction m)
  case 0
  then show ?case by simp
next
  case (Suc m)
  note len = concat_groups_length [of f m, OF assms(1)]
  show ?case
  proof (cases "n < 6 * m")
    case True
    then show ?thesis using Suc.IH by (simp add: nth_append len)
  next
    case False
    with Suc.prems have "n div 6 = m" "n mod 6 = n - 6 * m" by presburger+
    with False show ?thesis by (simp add: nth_append len)
  qed
qed

lemma concat_groups_slice:
  assumes "\<And>k. length (f k) = 6" "k < m"
  shows "take 6 (drop (6 * k) (concat (map f [0..<m]) @ rest)) = f k"
proof (rule nth_equalityI)
  note len = concat_groups_length [of f m, OF assms(1)]
  show "length (take 6 (drop (6 * k) (concat (map f [0..<m]) @ rest))) = length (f k)"
    using assms(2) by (simp add: len assms(1))
  fix i
  assume "i < length (take 6 (drop (6 * k) (concat (map f [0..<m]) @ rest)))"
  then have i: "i < 6" by simp
  with assms(2) have lt: "6 * k + i < 6 * m" by linarith
  from i have dm: "(6 * k + i) div 6 = k" "(6 * k + i) mod 6 = i" by simp_all
  have "6 * k \<le> length (concat (map f [0..<m]) @ rest)"
    using lt by (simp add: len)
  then have "take 6 (drop (6 * k) (concat (map f [0..<m]) @ rest)) ! i
        = (concat (map f [0..<m]) @ rest) ! (6 * k + i)"
    by (simp only: nth_take [OF i] nth_drop)
  also have "\<dots> = concat (map f [0..<m]) ! (6 * k + i)"
    using lt by (simp add: nth_append len)
  also have "\<dots> = f k ! i"
    using concat_groups_nth [of f "6 * k + i" m, OF assms(1) lt] by (simp only: dm)
  finally show "take 6 (drop (6 * k) (concat (map f [0..<m]) @ rest)) ! i = f k ! i" .
qed

lemma clamp_saturates: "uint (clamp x) = max 0 (min 255 x)"
  by (simp add: clamp_def uint_word_of_int take_bit_int_eq_self)

subsection \<open>Channel values at the inputs used below\<close>

lemma chan_white:
  "chan_r 255 127 = 433" "chan_g 255 127 127 = 120" "chan_b 255 127 = 480"
  by code_simp+

lemma chan_black:
  "chan_r 0 (- 128) = - 179" "chan_g 0 (- 128) (- 128) = 135" "chan_b 0 (- 128) = - 226"
  by code_simp+

lemma chan_dark:
  "chan_r 0 127 = 178" "chan_g 0 127 127 = - 134" "chan_b 0 127 = 225"
  by code_simp+

lemma chan_grey:
  "chan_r 16 0 = 16" "chan_g 16 0 0 = 16" "chan_b 16 0 = 16"
  by code_simp+

lemma yuyv_to_rgb_value:
  assumes "4 * groups width height \<le> length yuyv" "6 * groups width height \<le> length rgb"
    and "int (6 * groups width height) \<le> INT_MAX" "0 \<le> width * height"
  shows "yuyv_to_rgb yuyv rgb width height =
         Inr (concat (map (group_rgb yuyv) [0..<groups width height])
              @ drop (6 * groups width height) rgb)"
proof -
  from yuyv_to_rgb_returns [OF assms]
  obtain out where out: "yuyv_to_rgb yuyv rgb width height = Inr out" by blast
  with yuyv_to_rgb_result [OF out] show ?thesis by simp
qed

lemma yuyv_to_rgb_white:
  "yuyv_to_rgb [255, 255, 255, 255] [0, 0, 0, 0, 0, 0] 2 1 = Inr [255, 120, 255, 255, 120, 255]"
  by (subst yuyv_to_rgb_value)
     (simp_all add: groups_def INT_MAX_def group_rgb_def group_wide_def chan_white clamp_def)

lemma yuyv_to_rgb_black:
  "yuyv_to_rgb [0, 0, 0, 0] [9, 9, 9, 9, 9, 9] 2 1 = Inr [0, 135, 0, 0, 135, 0]"
  by (subst yuyv_to_rgb_value)
     (simp_all add: groups_def INT_MAX_def group_rgb_def group_wide_def chan_black clamp_def)

lemma groups_even:
  assumes "0 \<le> p" "even p"
  shows "int (nat ((p * 2 + 3) div 4)) * 2 = p" "nat (3 * p) = 6 * nat ((p * 2 + 3) div 4)"
    "nat ((p * 2 + 3) div 4) = nat p div 2"
  using assms by (auto elim!: evenE)

subsection \<open>Size of the output\<close>

text \<open>
  Claim C1, as amended. Let the pixel count \<open>width * height\<close> be positive and even, with
  \<open>3 * width * height\<close> not above \<^verbatim>\<open>INT_MAX\<close>, the input of length \<open>2 * width * height\<close>
  and the output buffer of at least \<open>3 * width * height\<close> bytes. Then \<^verbatim>\<open>yuyv_to_rgb\<close>
  returns without fault, the first \<open>3 * width * height\<close> bytes of the buffer are the
  six-byte results of the \<open>width * height / 2\<close> four-byte groups of the input, in order,
  the groups cover the input exactly, and every byte of the buffer beyond
  \<open>3 * width * height\<close> is left as it was. With a buffer of exactly \<open>3 * width * height\<close>
  bytes the output is exactly that long.
\<close>

theorem yuyv_to_rgb_output_size:
  assumes "0 < width" "0 < height" "even (width * height)" "3 * (width * height) \<le> INT_MAX"
    and "int (length yuyv) = 2 * (width * height)" "3 * (width * height) \<le> int (length rgb)"
  shows "\<exists>out. yuyv_to_rgb yuyv rgb width height = Inr out
           \<and> length out = length rgb
           \<and> take (nat (3 * (width * height))) out
               = concat (map (group_rgb yuyv) [0..<nat (width * height) div 2])
           \<and> length (concat (map (group_rgb yuyv) [0..<nat (width * height) div 2]))
               = nat (3 * (width * height))
           \<and> 4 * (nat (width * height) div 2) = length yuyv
           \<and> drop (nat (3 * (width * height))) out = drop (nat (3 * (width * height))) rgb"
proof -
  define p where "p = width * height"
  have p: "0 \<le> p" "even p" using assms(1,2,3) by (simp_all add: p_def)
  let ?n = "groups width height"
  have n: "int ?n * 2 = p" "nat (3 * p) = 6 * ?n" "?n = nat p div 2"
    unfolding groups_def p_def [symmetric] using groups_even [OF p] by simp_all
  have b: "4 * ?n \<le> length yuyv" "6 * ?n \<le> length rgb" "int (6 * ?n) \<le> INT_MAX"
    "4 * ?n = length yuyv"
    using assms(4,5,6) n(1) unfolding p_def [symmetric] by linarith+
  from yuyv_to_rgb_returns [OF b(1,2,3)] p(1)
  obtain out where out: "yuyv_to_rgb yuyv rgb width height = Inr out"
    unfolding p_def by blast
  note r = yuyv_to_rgb_result [OF out]
  note len = concat_groups_length [of "group_rgb yuyv" ?n, OF length_group_rgb]
  have "length out = length rgb"
    using r b(2) by (simp add: len)
  moreover have "take (6 * ?n) out = concat (map (group_rgb yuyv) [0..<?n])"
    using r by (simp add: len)
  moreover have "drop (6 * ?n) out = drop (6 * ?n) rgb"
    using r by (simp add: len)
  ultimately show ?thesis
    using out len b(4) unfolding p_def [symmetric] n(2) n(3) [symmetric] by simp
qed

text \<open>The theorem of C1 at a 2 by 1 image with one spare byte behind the output.\<close>

theorem yuyv_to_rgb_output_size_witness:
  "\<exists>out. yuyv_to_rgb [255, 255, 255, 255] [1, 2, 3, 4, 5, 6, 7] 2 1 = Inr out
     \<and> length out = length [1, 2, 3, 4, 5, 6, 7 :: byte]
     \<and> take (nat (3 * (2 * 1))) out
         = concat (map (group_rgb [255, 255, 255, 255]) [0..<nat (2 * 1) div 2])
     \<and> length (concat (map (group_rgb [255, 255, 255, 255]) [0..<nat (2 * 1) div 2]))
         = nat (3 * (2 * 1))
     \<and> 4 * (nat (2 * 1) div 2) = length [255, 255, 255, 255 :: byte]
     \<and> drop (nat (3 * (2 * 1))) out = drop (nat (3 * (2 * 1))) [1, 2, 3, 4, 5, 6, 7]"
  by (rule yuyv_to_rgb_output_size) (simp_all add: INT_MAX_def)

lemma length_group_wide: "length (group_wide yuyv k) = 6"
  by (simp add: group_wide_def Let_def)

subsection \<open>Saturation\<close>

text \<open>
  Claim C2. Whenever \<^verbatim>\<open>yuyv_to_rgb\<close> returns, every byte \<open>n\<close> it wrote is \<open>clamp\<close> of the
  channel value computed in \<^verbatim>\<open>int\<close> for that position, and read as a number it is that
  value saturated to \<open>[0, 255]\<close>: \<open>max 0 (min 255 x)\<close>. For \<open>Y = U = V = 255\<close> the channel
  values are 433, 120 and 480 and the bytes stored are 255, 120 and 255; for
  \<open>Y = U = V = 0\<close> they are -179, 135 and -226 and the bytes are 0, 135 and 0. Wrapping
  modulo 256 would have given 177 for 433 and 77 for -179.
\<close>

theorem yuyv_to_rgb_clamps:
  assumes "yuyv_to_rgb yuyv rgb width height = Inr out" "n < 6 * groups width height"
  shows "out ! n = clamp (group_wide yuyv (n div 6) ! (n mod 6))
         \<and> uint (out ! n) = max 0 (min 255 (group_wide yuyv (n div 6) ! (n mod 6)))
         \<and> group_wide [255, 255, 255, 255] 0 = [433, 120, 480, 433, 120, 480]
         \<and> yuyv_to_rgb [255, 255, 255, 255] [0, 0, 0, 0, 0, 0] 2 1
             = Inr [255, 120, 255, 255, 120, 255]
         \<and> group_wide [0, 0, 0, 0] 0 = [- 179, 135, - 226, - 179, 135, - 226]
         \<and> yuyv_to_rgb [0, 0, 0, 0] [9, 9, 9, 9, 9, 9] 2 1 = Inr [0, 135, 0, 0, 135, 0]
         \<and> (word_of_int 433 :: byte) = 177 \<and> (word_of_int (- 179) :: byte) = 77"
proof -
  note r = yuyv_to_rgb_result [OF assms(1)]
  note len = concat_groups_length [of "group_rgb yuyv" "groups width height", OF length_group_rgb]
  have "out ! n = concat (map (group_rgb yuyv) [0..<groups width height]) ! n"
    using r assms(2) by (simp add: nth_append len)
  also have "\<dots> = group_rgb yuyv (n div 6) ! (n mod 6)"
    using assms(2) by (intro concat_groups_nth length_group_rgb)
  also have "\<dots> = clamp (group_wide yuyv (n div 6) ! (n mod 6))"
    by (simp add: group_rgb_def length_group_wide)
  finally have a: "out ! n = clamp (group_wide yuyv (n div 6) ! (n mod 6))" .
  have e1: "group_wide [255, 255, 255, 255] 0 = [433, 120, 480, 433, 120, 480]"
    by (simp add: group_wide_def chan_white)
  note e2 = yuyv_to_rgb_white
  have e3: "group_wide [0, 0, 0, 0] 0 = [- 179, 135, - 226, - 179, 135, - 226]"
    by (simp add: group_wide_def chan_black)
  note e4 = yuyv_to_rgb_black
  have e5: "(word_of_int 433 :: byte) = 177 \<and> (word_of_int (- 179) :: byte) = 77"
    by simp
  show ?thesis
    using a e1 e2 e3 e4 e5 by (simp add: clamp_saturates)
qed

text \<open>The theorem of C2 at the first byte of a white 2 by 1 image.\<close>

theorem yuyv_to_rgb_clamps_witness:
  "yuyv_to_rgb [255, 255, 255, 255] [0, 0, 0, 0, 0, 0] 2 1 = Inr [255, 120, 255, 255, 120, 255]
   \<and> (0 :: nat) < 6 * groups 2 1
   \<and> [255, 120, 255, 255, 120, 255] ! 0 = clamp (group_wide [255, 255, 255, 255] (0 div 6) ! (0 mod 6))
   \<and> uint ([255, 120, 255, 255, 120, 255 :: byte] ! 0) = max 0 (min 255 (433 :: int))"
proof -
  note h1 = yuyv_to_rgb_white
  have h2: "(0 :: nat) < 6 * groups 2 1"
    by (simp add: groups_def)
  show ?thesis
    using yuyv_to_rgb_clamps [OF h1 h2] h1 h2 by (simp add: clamp_def)
qed

subsection \<open>Order of the pixels\<close>

text \<open>
  Claim C3. Whenever \<^verbatim>\<open>yuyv_to_rgb\<close> returns, the \<open>k\<close>-th six bytes of the output are
  computed from the \<open>k\<close>-th four bytes \<open>[Y0, U, Y1, V]\<close> of the input: the triplet of
  \<open>Y0\<close> first, the triplet of \<open>Y1\<close> second, both with the chroma of their own group.
  The bytes written are those of the groups in input order, three bytes for each of
  twice as many pixels as there are groups, and nothing else in the buffer changes.
\<close>

theorem yuyv_to_rgb_keeps_order:
  assumes "yuyv_to_rgb yuyv rgb width height = Inr out" "k < groups width height"
  shows "take 6 (drop (6 * k) out) =
           (let y0 = uint (yuyv ! (4 * k));
                u = uint (yuyv ! (4 * k + 1)) - 128;
                y1 = uint (yuyv ! (4 * k + 2));
                v = uint (yuyv ! (4 * k + 3)) - 128
            in [clamp (chan_r y0 v), clamp (chan_g y0 u v), clamp (chan_b y0 u)]
               @ [clamp (chan_r y1 v), clamp (chan_g y1 u v), clamp (chan_b y1 u)])
         \<and> 4 * k + 4 \<le> length yuyv \<and> 6 * k + 6 \<le> length out
         \<and> take (6 * groups width height) out
             = concat (map (group_rgb yuyv) [0..<groups width height])
         \<and> length (take (6 * groups width height) out) = 3 * (2 * groups width height)
         \<and> drop (6 * groups width height) out = drop (6 * groups width height) rgb"
proof -
  note r = yuyv_to_rgb_result [OF assms(1)]
  note len = concat_groups_length [of "group_rgb yuyv" "groups width height", OF length_group_rgb]
  from r have out_eq: "out = concat (map (group_rgb yuyv) [0..<groups width height])
      @ drop (6 * groups width height) rgb" by simp
  have "take 6 (drop (6 * k) out) = group_rgb yuyv k"
    unfolding out_eq by (rule concat_groups_slice [OF length_group_rgb assms(2)])
  moreover have "4 * k + 4 \<le> length yuyv" "6 * k + 6 \<le> length out"
    using r assms(2) by (simp_all add: len)
  moreover have "take (6 * groups width height) out
             = concat (map (group_rgb yuyv) [0..<groups width height])"
    "drop (6 * groups width height) out = drop (6 * groups width height) rgb"
    using r by (simp_all add: len)
  ultimately show ?thesis
    by (simp add: group_rgb_def group_wide_def Let_def len)
qed

text \<open>The theorem of C3 at the second group of a 4 by 1 image.\<close>

theorem yuyv_to_rgb_keeps_order_witness:
  "yuyv_to_rgb [16, 128, 16, 128, 255, 255, 0, 255] [0, 0, 0, 0, 0, 0, 0, 0, 0, 0, 0, 0] 4 1
     = Inr [16, 16, 16, 16, 16, 16, 255, 120, 255, 178, 0, 225]
   \<and> (1 :: nat) < groups 4 1
   \<and> [clamp (chan_r 255 127), clamp (chan_g 255 127 127), clamp (chan_b 255 127),
       clamp (chan_r 0 127), clamp (chan_g 0 127 127), clamp (chan_b 0 127)]
      = [255, 120, 255, 178, 0, 225]"
proof -
  have h1: "yuyv_to_rgb [16, 128, 16, 128, 255, 255, 0, 255] [0, 0, 0, 0, 0, 0, 0, 0, 0, 0, 0, 0] 4 1
     = Inr [16, 16, 16, 16, 16, 16, 255, 120, 255, 178, 0, 225]"
    by (subst yuyv_to_rgb_value)
       (simp_all add: groups_def INT_MAX_def group_rgb_def group_wide_def upt_rec
          chan_white chan_dark chan_grey clamp_def)
  have h2: "(1 :: nat) < groups 4 1"
    by (simp add: groups_def)
  show ?thesis
    using yuyv_to_rgb_keeps_order [OF h1 h2, THEN conjunct1] h1 h2 by simp
qed

subsection \<open>An odd pixel count\<close>

text \<open>
  Claim C1 as stated fails for an odd pixel count. For a 1 by 1 image the loop runs once
  for a whole group: with an input of \<open>2 * 1 * 1\<close> bytes it reads past the end of the
  input, and where the memory is there (four input bytes, six output bytes) it writes six
  bytes, three of them beyond \<open>3 * 1 * 1\<close>.
\<close>

theorem yuyv_to_rgb_odd_counterexample:
  "yuyv_to_rgb [16, 128] [0, 0, 0] 1 1 = Inl OutOfBounds
   \<and> yuyv_to_rgb [16, 128, 16, 128] [0, 0, 0, 9, 9, 9] 1 1 = Inr [16, 16, 16, 16, 16, 16]"
proof
  show "yuyv_to_rgb [16, 128] [0, 0, 0] 1 1 = Inl OutOfBounds"
    by (simp add: yuyv_to_rgb_def in_int_range_def INT_MAX_def INT_MIN_def yuyv_loop.simps)
  show "yuyv_to_rgb [16, 128, 16, 128] [0, 0, 0, 9, 9, 9] 1 1 = Inr [16, 16, 16, 16, 16, 16]"
    by (subst yuyv_to_rgb_value)
       (simp_all add: groups_def INT_MAX_def group_rgb_def group_wide_def chan_grey clamp_def)
qed

section \<open>Properties of the capture program\<close>

subsection \<open>xioctl\<close>

text \<open>\<^verbatim>\<open>xioctl\<close> returns as soon as one attempt is not interrupted.\<close>

lemma xioctl_attempt_returns:
  assumes "\<not> (fst (io (a + n)) = - 1 \<and> snd (io (a + n)) = EINTR)"
  shows "\<exists>r. xioctl_attempt io a = Some r"
  using assms
proof (induction n arbitrary: a)
  case 0
  then show ?case by (subst xioctl_attempt.simps) auto
next
  case (Suc n)
  then have "\<exists>r. xioctl_attempt io (Suc a) = Some r" by (intro Suc.IH) simp
  then show ?case by (subst xioctl_attempt.simps) auto
qed

lemma xioctl_returns:
  assumes "\<not> (fst (ioctl_ret dev req k n) = - 1 \<and> snd (ioctl_ret dev req k n) = EINTR)"
  shows "\<exists>r. xioctl dev req k = Some r"
  unfolding xioctl_def using xioctl_attempt_returns [of "ioctl_ret dev req k" 0 n] assms by simp

subsection \<open>The parts of main\<close>

lemma setup_stream_trace:
  assumes "setup_stream dev = Some (Next, s)"
  shows "trace s = setup_events"
  using assms unfolding setup_stream_def setup_events_def
  by (auto simp: Let_def emit_def fill_buf_def split: if_splits option.splits Option.bind_splits)

lemma warmup_step:
  assumes "i < 10" "0 < select_ret dev i" "xioctl dev VIDIOC_DQBUF i = Some r"
    and "i < 9 \<Longrightarrow> xioctl dev VIDIOC_QBUF (i + 1) = Some q"
  shows "warmup dev i s =
         warmup dev (i + 1)
           (if i < 9 then fill_buf dev VIDIOC_QBUF (i + 1) q
                            (emit (Xioctl VIDIOC_QBUF)
                               (dequeued dev i r (emit (Xioctl VIDIOC_DQBUF) (emit (Select 2 0) s))))
            else dequeued dev i r (emit (Xioctl VIDIOC_DQBUF) (emit (Select 2 0) s)))"
  using assms by (subst warmup.simps) (simp add: Let_def)

lemma trace_emit [simp]: "trace (emit e s) = trace s @ [e]"
  by (simp add: emit_def)

lemma trace_fill_buf [simp]: "trace (fill_buf dev req k r s) = trace s"
  by (simp add: fill_buf_def)

lemma trace_dequeued [simp]: "trace (dequeued dev k r s) = trace s"
  by (simp add: dequeued_def)

lemma warmup_completes:
  assumes "i + n = 10"
    and "\<And>k. i \<le> k \<Longrightarrow> k < 10 \<Longrightarrow> 0 < select_ret dev k"
    and "\<And>k. i \<le> k \<Longrightarrow> k < 10 \<Longrightarrow> xioctl dev VIDIOC_DQBUF k \<noteq> None"
    and "\<And>k. i \<le> k \<Longrightarrow> k < 9 \<Longrightarrow> xioctl dev VIDIOC_QBUF (k + 1) \<noteq> None"
  shows "\<exists>s'. warmup dev i s = Some (Next, s')
           \<and> trace s' = trace s @ concat (map iteration_events [i..<10])
           \<and> (\<forall>r. i < 10 \<longrightarrow> xioctl dev VIDIOC_DQBUF 9 = Some r \<longrightarrow> 0 \<le> r \<longrightarrow>
                  bytesused s' = buf_bytesused dev VIDIOC_DQBUF 9 \<and> mapped s' = frame dev 9)"
  using assms
proof (induction n arbitrary: i s)
  case 0
  then have "i = 10" by simp
  then show ?case by (subst warmup.simps) simp
next
  case (Suc n)
  then have i: "i < 10" by simp
  from Suc.prems(3) [of i] i obtain r where r: "xioctl dev VIDIOC_DQBUF i = Some r" by auto
  let ?d = "dequeued dev i r (emit (Xioctl VIDIOC_DQBUF) (emit (Select 2 0) s))"
  have u: "[i..<10] = i # [i + 1..<10]" using i by (simp add: upt_conv_Cons)
  show ?case
  proof (cases "i < 9")
    case True
    from Suc.prems(4) [of i] True obtain q where q: "xioctl dev VIDIOC_QBUF (i + 1) = Some q" by auto
    let ?s = "fill_buf dev VIDIOC_QBUF (i + 1) q (emit (Xioctl VIDIOC_QBUF) ?d)"
    have step: "warmup dev i s = warmup dev (i + 1) ?s"
      using warmup_step [of i dev r q s] i r q Suc.prems(2) [of i] True by simp
    have "\<exists>s'. warmup dev (i + 1) ?s = Some (Next, s')
           \<and> trace s' = trace ?s @ concat (map iteration_events [i + 1..<10])
           \<and> (\<forall>r. i + 1 < 10 \<longrightarrow> xioctl dev VIDIOC_DQBUF 9 = Some r \<longrightarrow> 0 \<le> r \<longrightarrow>
                  bytesused s' = buf_bytesused dev VIDIOC_DQBUF 9 \<and> mapped s' = frame dev 9)"
      using Suc.prems by (intro Suc.IH) simp_all
    moreover have "iteration_events i = [Select 2 0, Xioctl VIDIOC_DQBUF, Xioctl VIDIOC_QBUF]"
      using True by (simp add: iteration_events_def)
    ultimately show ?thesis
      unfolding step u using True by simp
  next
    case False
    with i have i9: "i = 9" by simp
    have step: "warmup dev i s = warmup dev (i + 1) ?d"
      using warmup_step [of i dev r undefined s] i r Suc.prems(2) [of i] False by simp
    have "warmup dev (i + 1) ?d = Some (Next, ?d)"
      using i9 by (subst warmup.simps) simp
    moreover have "iteration_events 9 = [Select 2 0, Xioctl VIDIOC_DQBUF]"
      by (simp add: iteration_events_def)
    ultimately show ?thesis
      unfolding step using i9 r by (simp add: dequeued_def)
  qed
qed

lemma warmup_timeout:
  assumes "i + n = k" "k < 10" "select_ret dev k \<le> 0"
    and "\<And>j. i \<le> j \<Longrightarrow> j < k \<Longrightarrow> 0 < select_ret dev j"
    and "\<And>j. i \<le> j \<Longrightarrow> j < k \<Longrightarrow> xioctl dev VIDIOC_DQBUF j \<noteq> None"
    and "\<And>j. i \<le> j \<Longrightarrow> j < k \<Longrightarrow> xioctl dev VIDIOC_QBUF (j + 1) \<noteq> None"
  shows "\<exists>s'. warmup dev i s = Some (Return 1, s')
           \<and> trace s' = trace s @ concat (map iteration_events [i..<k])
                          @ [Select 2 0, Perror ''Timeout waiting for frame'']"
  using assms
proof (induction n arbitrary: i s)
  case 0
  then have "i = k" by simp
  with "0.prems"(2,3) show ?case by (subst warmup.simps) (simp add: Let_def)
next
  case (Suc n)
  then have i: "i < k" "i < 9" "i < 10" by simp_all
  from Suc.prems(5) [of i] i obtain r where r: "xioctl dev VIDIOC_DQBUF i = Some r" by auto
  from Suc.prems(6) [of i] i obtain q where q: "xioctl dev VIDIOC_QBUF (i + 1) = Some q" by auto
  let ?s = "fill_buf dev VIDIOC_QBUF (i + 1) q (emit (Xioctl VIDIOC_QBUF)
              (dequeued dev i r (emit (Xioctl VIDIOC_DQBUF) (emit (Select 2 0) s))))"
  have u: "[i..<k] = i # [i + 1..<k]" using i by (simp add: upt_conv_Cons)
  have step: "warmup dev i s = warmup dev (i + 1) ?s"
    using warmup_step [of i dev r q s] i r q Suc.prems(4) [of i] by simp
  have "\<exists>s'. warmup dev (i + 1) ?s = Some (Return 1, s')
           \<and> trace s' = trace ?s @ concat (map iteration_events [i + 1..<k])
                          @ [Select 2 0, Perror ''Timeout waiting for frame'']"
    using Suc.prems by (intro Suc.IH) simp_all
  moreover have "iteration_events i = [Select 2 0, Xioctl VIDIOC_DQBUF, Xioctl VIDIOC_QBUF]"
    using i by (simp add: iteration_events_def)
  ultimately show ?case
    unfolding step u by simp
qed


lemma upt_10: "[0..<10] = [0, 1, 2, 3, 4, 5, 6, 7, 8, 9]"
  by code_simp

lemma ten_iterations:
  "concat (map iteration_events [0..<10]) =
     concat (replicate 9 [Select 2 0, Xioctl VIDIOC_DQBUF, Xioctl VIDIOC_QBUF])
     @ [Select 2 0, Xioctl VIDIOC_DQBUF]"
  by (simp add: upt_10 iteration_events_def eval_nat_numeral)

lemma concat_replicate_comm:
  "concat (replicate n xs) @ xs = xs @ concat (replicate n xs)"
  by (induction n) simp_all

lemma early_iterations:
  assumes "k \<le> 9"
  shows "concat (map iteration_events [0..<k]) =
         concat (replicate k [Select 2 0, Xioctl VIDIOC_DQBUF, Xioctl VIDIOC_QBUF])"
  using assms
proof (induction k)
  case 0
  show ?case by simp
next
  case (Suc k)
  then have "iteration_events k = [Select 2 0, Xioctl VIDIOC_DQBUF, Xioctl VIDIOC_QBUF]"
    by (simp add: iteration_events_def)
  with Suc show ?case by (simp add: concat_replicate_comm)
qed

lemma count_replicated:
  "length (filter P (concat (replicate n xs))) = n * length (filter P xs)"
  by (induction n) simp_all

lemma filter_replicated_empty:
  "filter P xs = [] \<Longrightarrow> filter P (concat (replicate n xs)) = []"
  by (induction n) simp_all

lemma set_replicated: "set (concat (replicate n xs)) \<subseteq> set xs"
  by (induction n) auto

lemma capture_final_empty:
  assumes "bytesused s = 0"
  shows "capture_final dev s = (Next, emit (Printf ''Error: Captured 0 bytes\<newline>'' []) s)"
  using assms by (simp add: capture_final_def)

lemma groups_frame: "groups 320 240 = 38400"
  by (simp add: groups_def)

lemma capture_final_convert:
  assumes "0 < bytesused s" "malloc_ret dev = Some junk" "153600 \<le> length (mapped s)"
  shows "\<exists>rgb. yuyv_to_rgb (mapped s) (map junk [0..<230400]) 320 240 = Inr rgb
          \<and> capture_final dev s =
              (Next, s\<lparr>trace := trace s @
                 [Printf ''Captured Raw Frame: %d bytes. Converting...\<newline>'' [sint (bytesused s)],
                  Malloc 230400, Convert (mapped s) 320 240,
                  Write_jpg ''image.jpg'' 320 240 3 rgb 90,
                  if stbi_write_jpg_ret dev \<noteq> 0
                  then Printf ''Success! Saved as image.jpg\<newline>'' []
                  else Printf ''Error: Failed to write JPEG file.\<newline>'' [],
                  Free]\<rparr>)"
proof -
  have "\<exists>rgb. yuyv_to_rgb (mapped s) (map junk [0..<230400]) WIDTH HEIGHT = Inr rgb"
    unfolding WIDTH_def HEIGHT_def using assms(3)
    by (intro yuyv_to_rgb_returns) (simp_all add: groups_frame INT_MAX_def)
  then obtain rgb where rgb: "yuyv_to_rgb (mapped s) (map junk [0..<230400]) WIDTH HEIGHT = Inr rgb"
    by blast
  have n: "nat (WIDTH * HEIGHT * 3) = 230400" "WIDTH * HEIGHT * 3 = 230400"
    by (simp_all add: WIDTH_def HEIGHT_def)
  have "capture_final dev s =
              (Next, s\<lparr>trace := trace s @
                 [Printf ''Captured Raw Frame: %d bytes. Converting...\<newline>'' [sint (bytesused s)],
                  Malloc 230400, Convert (mapped s) WIDTH HEIGHT,
                  Write_jpg ''image.jpg'' WIDTH HEIGHT 3 rgb QUALITY,
                  if stbi_write_jpg_ret dev \<noteq> 0
                  then Printf ''Success! Saved as image.jpg\<newline>'' []
                  else Printf ''Error: Failed to write JPEG file.\<newline>'' [],
                  Free]\<rparr>)"
    unfolding capture_final_def using assms(1,2) rgb
    by (simp add: Let_def emit_def n)
  with rgb show ?thesis
    by (auto simp: WIDTH_def HEIGHT_def QUALITY_def)
qed

lemma main_after_setup:
  assumes "setup_stream dev = Some (Next, s0)" "warmup dev 0 (emit warming_up s0) = Some (c, s1)"
  shows "main dev = (case c of
            Next \<Rightarrow> (case capture_final dev s1 of
                       (Next, s) \<Rightarrow> cleanup dev s
                     | (c, s) \<Rightarrow> Some (c, s))
          | _ \<Rightarrow> Some (c, s1))"
  using assms by (simp add: main_def warming_up_def)

lemma cleanup_returns:
  assumes "xioctl dev VIDIOC_STREAMOFF 0 = Some r"
  shows "cleanup dev s = Some (Return 0, s\<lparr>trace := trace s @ [Xioctl VIDIOC_STREAMOFF, Close]\<rparr>)"
  using assms by (simp add: cleanup_def emit_def)


lemma dequeues_setup [simp]: "dequeues setup_events = 0"
  by (simp add: dequeues_def setup_events_def)

lemma dequeues_simps [simp]:
  "dequeues (es @ es') = dequeues es + dequeues es'"
  "dequeues (e # es) = (if e = Xioctl VIDIOC_DQBUF then 1 else 0) + dequeues es"
  "dequeues [] = 0"
  "dequeues (concat (replicate n es)) = n * dequeues es"
  by (simp_all add: dequeues_def count_replicated)

lemma requeues_after_setup [simp]:
  "requeues (setup_events @ es) = length (filter (\<lambda>e. e = Xioctl VIDIOC_QBUF) es)"
  by (simp add: requeues_def setup_events_def)

lemma setup_events_quiet:
  "filter is_convert setup_events = []" "filter is_write_jpg setup_events = []"
  "filter (\<lambda>e. e = Xioctl VIDIOC_DQBUF) setup_events = []"
  "Xioctl VIDIOC_STREAMOFF \<notin> set setup_events" "Close \<notin> set setup_events"
  by (simp_all add: setup_events_def)

lemma xioctl_good_camera: "xioctl good_camera req k = Some 0"
  by (simp add: xioctl_def good_camera_def xioctl_attempt.simps)

lemma good_camera_fields:
  "open_ret good_camera = 3" "buf_bytesused good_camera req k = 153600"
  "frame good_camera k = replicate 153600 (of_nat k)"
  "mmap_ret good_camera = Some (replicate 153600 0)" "select_ret good_camera i = 1"
  "malloc_ret good_camera = Some (\<lambda>n. 0)" "stbi_write_jpg_ret good_camera = 1"
  by (simp_all add: good_camera_def)

lemma setup_stream_good_camera:
  "setup_stream good_camera =
     Some (Next, \<lparr>bytesused = 153600, mapped = replicate 153600 0, trace = setup_events\<rparr>)"
  by (simp add: setup_stream_def xioctl_good_camera good_camera_fields Let_def emit_def
        fill_buf_def setup_events_def)

subsection \<open>The successful run\<close>

text \<open>
  Claim C4. Let the stream start, every wait of the ten iterations succeed, every dequeue
  and requeue return without error, the tenth dequeue report a positive byte count and a
  buffer that holds a full 320 by 240 frame, the allocation and the JPEG writer succeed
  and the stream-off call return. Then \<^verbatim>\<open>main\<close> returns 0 and its calls are those of the
  setup, ten iterations of wait and dequeue with a requeue in all but the last, one
  conversion, one call of the encoder and the teardown: 10 dequeues, 9 requeues, the
  only conversion is that of the frame of the tenth dequeue, and the only call of the
  encoder has width 320, height 240 and 3 channels.
\<close>

theorem capture_success_run:
  assumes "setup_stream dev = Some (Next, s0)"
    and "\<forall>i<10. 0 < select_ret dev i \<and> (\<exists>r\<ge>0. xioctl dev VIDIOC_DQBUF i = Some r)"
    and "\<forall>i<9. \<exists>r\<ge>0. xioctl dev VIDIOC_QBUF (i + 1) = Some r"
    and "0 < buf_bytesused dev VIDIOC_DQBUF 9" "153600 \<le> length (frame dev 9)"
    and "malloc_ret dev = Some junk" "stbi_write_jpg_ret dev \<noteq> 0"
    and "xioctl dev VIDIOC_STREAMOFF 0 = Some r_off"
  shows "\<exists>s rgb. main dev = Some (Return 0, s)
           \<and> yuyv_to_rgb (frame dev 9) (map junk [0..<230400]) 320 240 = Inr rgb
           \<and> trace s = setup_events @ warming_up # concat (map iteration_events [0..<10])
               @ [Printf ''Captured Raw Frame: %d bytes. Converting...\<newline>''
                    [sint (buf_bytesused dev VIDIOC_DQBUF 9)],
                  Malloc 230400, Convert (frame dev 9) 320 240,
                  Write_jpg ''image.jpg'' 320 240 3 rgb 90,
                  Printf ''Success! Saved as image.jpg\<newline>'' [], Free,
                  Xioctl VIDIOC_STREAMOFF, Close]
           \<and> dequeues (trace s) = 10 \<and> requeues (trace s) = 9
           \<and> filter is_convert (trace s) = [Convert (frame dev 9) 320 240]
           \<and> filter is_write_jpg (trace s) = [Write_jpg ''image.jpg'' 320 240 3 rgb 90]"
proof -
  from assms(2) [rule_format, of 9]
  obtain r9 where r9: "xioctl dev VIDIOC_DQBUF 9 = Some r9" "0 \<le> r9" by auto
  have "\<exists>s'. warmup dev 0 (emit warming_up s0) = Some (Next, s')
           \<and> trace s' = trace (emit warming_up s0) @ concat (map iteration_events [0..<10])
           \<and> (\<forall>r. (0::nat) < 10 \<longrightarrow> xioctl dev VIDIOC_DQBUF 9 = Some r \<longrightarrow> 0 \<le> r \<longrightarrow>
                  bytesused s' = buf_bytesused dev VIDIOC_DQBUF 9 \<and> mapped s' = frame dev 9)"
    using assms(2,3) by (intro warmup_completes [where n = 10]) auto
  then obtain s1 where w: "warmup dev 0 (emit warming_up s0) = Some (Next, s1)"
    and t1: "trace s1 = setup_events @ warming_up # concat (map iteration_events [0..<10])"
    and b1: "bytesused s1 = buf_bytesused dev VIDIOC_DQBUF 9" "mapped s1 = frame dev 9"
    using r9 setup_stream_trace [OF assms(1)] by auto
  from capture_final_convert [of s1 dev junk] assms(4,5,6) b1
  obtain rgb where rgb: "yuyv_to_rgb (frame dev 9) (map junk [0..<230400]) 320 240 = Inr rgb"
    and cf: "capture_final dev s1 =
              (Next, s1\<lparr>trace := trace s1 @
                 [Printf ''Captured Raw Frame: %d bytes. Converting...\<newline>''
                    [sint (buf_bytesused dev VIDIOC_DQBUF 9)],
                  Malloc 230400, Convert (frame dev 9) 320 240,
                  Write_jpg ''image.jpg'' 320 240 3 rgb 90,
                  Printf ''Success! Saved as image.jpg\<newline>'' [], Free]\<rparr>)"
    using assms(7) by auto
  let ?s = "s1\<lparr>trace := setup_events @ warming_up # concat (map iteration_events [0..<10])
               @ [Printf ''Captured Raw Frame: %d bytes. Converting...\<newline>''
                    [sint (buf_bytesused dev VIDIOC_DQBUF 9)],
                  Malloc 230400, Convert (frame dev 9) 320 240,
                  Write_jpg ''image.jpg'' 320 240 3 rgb 90,
                  Printf ''Success! Saved as image.jpg\<newline>'' [], Free,
                  Xioctl VIDIOC_STREAMOFF, Close]\<rparr>"
  have m: "main dev = Some (Return 0, ?s)"
    using main_after_setup [OF assms(1) w] cf cleanup_returns [OF assms(8)]
    by (simp add: t1)
  have c: "dequeues (trace ?s) = 10" "requeues (trace ?s) = 9"
    "filter is_convert (trace ?s) = [Convert (frame dev 9) 320 240]"
    "filter is_write_jpg (trace ?s) = [Write_jpg ''image.jpg'' 320 240 3 rgb 90]"
    by (simp_all add: ten_iterations count_replicated filter_replicated_empty
          warming_up_def setup_events_quiet)
  show ?thesis
    using m rgb c by (intro exI [of _ ?s] exI [of _ rgb]) simp
qed

text \<open>The theorem of C4 at \<open>good_camera\<close>.\<close>

theorem capture_success_run_witness:
  "\<exists>s. main good_camera = Some (Return 0, s)
     \<and> dequeues (trace s) = 10 \<and> requeues (trace s) = 9
     \<and> filter is_convert (trace s) = [Convert (replicate 153600 9) 320 240]
     \<and> length (filter is_write_jpg (trace s)) = 1"
proof -
  have h: "0 < buf_bytesused good_camera VIDIOC_DQBUF 9"
    "153600 \<le> length (frame good_camera 9)"
    "malloc_ret good_camera = Some (\<lambda>n. 0)" "stbi_write_jpg_ret good_camera \<noteq> 0"
    "\<forall>i<10. 0 < select_ret good_camera i"
    "frame good_camera 9 = replicate 153600 9"
    by (simp_all add: good_camera_fields)
  show ?thesis
    using capture_success_run [OF setup_stream_good_camera, of "\<lambda>n. 0" 0] h
    by (auto simp: xioctl_good_camera)
qed

subsection \<open>A wait that times out\<close>

lemma main_timeout:
  assumes "setup_stream dev = Some (Next, s0)" "k < 10" "select_ret dev k \<le> 0"
    and "\<forall>j<k. 0 < select_ret dev j \<and> xioctl dev VIDIOC_DQBUF j \<noteq> None
                \<and> xioctl dev VIDIOC_QBUF (j + 1) \<noteq> None"
  shows "\<exists>s. main dev = Some (Return 1, s)
           \<and> trace s = setup_events @ warming_up # concat (map iteration_events [0..<k])
               @ [Select 2 0, Perror ''Timeout waiting for frame'']
           \<and> dequeues (trace s) = k \<and> requeues (trace s) = k
           \<and> filter is_convert (trace s) = [] \<and> filter is_write_jpg (trace s) = []"
proof -
  have "\<exists>s'. warmup dev 0 (emit warming_up s0) = Some (Return 1, s')
           \<and> trace s' = trace (emit warming_up s0) @ concat (map iteration_events [0..<k])
                          @ [Select 2 0, Perror ''Timeout waiting for frame'']"
    using assms(2,3,4) by (intro warmup_timeout [where n = k]) auto
  then obtain s where w: "warmup dev 0 (emit warming_up s0) = Some (Return 1, s)"
    and t: "trace s = setup_events @ warming_up # concat (map iteration_events [0..<k])
               @ [Select 2 0, Perror ''Timeout waiting for frame'']"
    using setup_stream_trace [OF assms(1)] by auto
  have m: "main dev = Some (Return 1, s)"
    using main_after_setup [OF assms(1) w] by simp
  have k: "k \<le> 9" using assms(2) by simp
  have c: "dequeues (trace s) = k" "requeues (trace s) = k"
    "filter is_convert (trace s) = []" "filter is_write_jpg (trace s) = []"
    unfolding t early_iterations [OF k]
    by (simp_all add: count_replicated filter_replicated_empty warming_up_def setup_events_quiet)
  show ?thesis
    using m t c by blast
qed

text \<open>
  Claim C5. Let the stream start and the wait of iteration \<open>k\<close> (the third wait is
  \<open>k = 2\<close>) be the first that does not report a ready frame within its two seconds, the
  earlier iterations having run. Then \<^verbatim>\<open>main\<close> reports
  \<^verbatim>\<open>Timeout waiting for frame\<close> and returns 1; the failed wait and that report are its
  last two calls, so nothing is queued or dequeued after the wait (\<open>k\<close> dequeues and \<open>k\<close>
  requeues in all), and neither the converter nor the encoder is called.
\<close>

theorem capture_timeout:
  assumes "setup_stream dev = Some (Next, s0)" "k < 10" "select_ret dev k \<le> 0"
    and "\<forall>j<k. 0 < select_ret dev j \<and> xioctl dev VIDIOC_DQBUF j \<noteq> None
                \<and> xioctl dev VIDIOC_QBUF (j + 1) \<noteq> None"
  shows "\<exists>s. main dev = Some (Return 1, s)
           \<and> trace s = setup_events @ warming_up # concat (map iteration_events [0..<k])
               @ [Select 2 0, Perror ''Timeout waiting for frame'']
           \<and> dequeues (trace s) = k \<and> requeues (trace s) = k
           \<and> filter is_convert (trace s) = [] \<and> filter is_write_jpg (trace s) = []"
  using assms by (rule main_timeout)

lemma setup_stream_succeeds:
  assumes "0 \<le> open_ret dev" "\<forall>req. req \<noteq> VIDIOC_DQBUF \<longrightarrow> xioctl dev req 0 = Some 0"
    and "mmap_ret dev = Some mem"
  shows "setup_stream dev =
     Some (Next, \<lparr>bytesused = buf_bytesused dev VIDIOC_QBUF 0, mapped = mem, trace = setup_events\<rparr>)"
  using assms
  by (simp add: setup_stream_def Let_def emit_def fill_buf_def setup_events_def)

lemma third_wait_camera_fields:
  "open_ret third_wait_camera = 3" "buf_bytesused third_wait_camera req k = 153600"
  "mmap_ret third_wait_camera = Some (replicate 153600 0)"
  "select_ret third_wait_camera i = (if i = 2 then 0 else 1)"
  by (simp_all add: third_wait_camera_def good_camera_def)

lemma xioctl_third_wait_camera: "xioctl third_wait_camera req k = Some 0"
  by (simp add: xioctl_def third_wait_camera_def good_camera_def xioctl_attempt.simps)

lemma setup_stream_third_wait_camera:
  "setup_stream third_wait_camera =
     Some (Next, \<lparr>bytesused = 153600, mapped = replicate 153600 0, trace = setup_events\<rparr>)"
  using setup_stream_succeeds [of third_wait_camera "replicate 153600 0"]
  by (simp add: xioctl_third_wait_camera third_wait_camera_fields)

text \<open>The theorem of C5 at \<open>third_wait_camera\<close>, \<open>k = 2\<close>.\<close>

theorem capture_timeout_witness:
  "\<exists>s. main third_wait_camera = Some (Return 1, s)
     \<and> trace s = setup_events @ warming_up
         # [Select 2 0, Xioctl VIDIOC_DQBUF, Xioctl VIDIOC_QBUF,
            Select 2 0, Xioctl VIDIOC_DQBUF, Xioctl VIDIOC_QBUF,
            Select 2 0, Perror ''Timeout waiting for frame'']
     \<and> dequeues (trace s) = 2 \<and> requeues (trace s) = 2
     \<and> filter is_convert (trace s) = [] \<and> filter is_write_jpg (trace s) = []"
proof -
  have h: "select_ret third_wait_camera 2 \<le> 0"
    "\<forall>j<2. 0 < select_ret third_wait_camera j
            \<and> xioctl third_wait_camera VIDIOC_DQBUF j \<noteq> None
            \<and> xioctl third_wait_camera VIDIOC_QBUF (j + 1) \<noteq> None"
    by (simp_all add: xioctl_third_wait_camera third_wait_camera_fields)
  have e: "concat (map iteration_events [0..<2])
           = [Select 2 0, Xioctl VIDIOC_DQBUF, Xioctl VIDIOC_QBUF,
              Select 2 0, Xioctl VIDIOC_DQBUF, Xioctl VIDIOC_QBUF]"
    by (simp add: iteration_events_def eval_nat_numeral)
  show ?thesis
    using capture_timeout [OF setup_stream_third_wait_camera _ h, of ] e by simp
qed


subsection \<open>Failures in the dequeue loop\<close>

lemma stalled_camera_fields:
  "open_ret stalled_camera = 3" "buf_bytesused stalled_camera req k = 153600"
  "mmap_ret stalled_camera = Some (replicate 153600 0)" "select_ret stalled_camera i = 0"
  by (simp_all add: stalled_camera_def good_camera_def)

lemma xioctl_stalled_camera: "xioctl stalled_camera req k = Some 0"
  by (simp add: xioctl_def stalled_camera_def good_camera_def xioctl_attempt.simps)

lemma setup_stream_stalled_camera:
  "setup_stream stalled_camera =
     Some (Next, \<lparr>bytesused = 153600, mapped = replicate 153600 0, trace = setup_events\<rparr>)"
  using setup_stream_succeeds [of stalled_camera "replicate 153600 0"]
  by (simp add: xioctl_stalled_camera stalled_camera_fields)

lemma failing_camera_fields:
  "open_ret failing_camera = 3" "buf_bytesused failing_camera req k = 0"
  "mmap_ret failing_camera = Some (replicate 153600 0)" "select_ret failing_camera i = 1"
  by (simp_all add: failing_camera_def good_camera_def)

lemma ioctl_ret_failing_camera:
  "ioctl_ret failing_camera req k a =
     (if req = VIDIOC_DQBUF \<or> (req = VIDIOC_QBUF \<and> 0 < k) then (- 1, 5) else (0, 0))"
  by (simp add: failing_camera_def good_camera_def)

lemma xioctl_failing_camera:
  "xioctl failing_camera req k =
     Some (if req = VIDIOC_DQBUF \<or> (req = VIDIOC_QBUF \<and> 0 < k) then - 1 else 0)"
proof (cases "req = VIDIOC_DQBUF \<or> (req = VIDIOC_QBUF \<and> 0 < k)")
  case True
  then have "ioctl_ret failing_camera req k 0 = (- 1, 5)"
    by (simp only: ioctl_ret_failing_camera if_True)
  with True show ?thesis
    unfolding xioctl_def by (subst xioctl_attempt.simps) (simp add: EINTR_def)
next
  case False
  then have "ioctl_ret failing_camera req k 0 = (0, 0)"
    by (simp only: ioctl_ret_failing_camera if_False)
  with False show ?thesis
    unfolding xioctl_def by (subst xioctl_attempt.simps) simp
qed

lemma setup_stream_failing_camera:
  "setup_stream failing_camera =
     Some (Next, \<lparr>bytesused = 0, mapped = replicate 153600 0, trace = setup_events\<rparr>)"
  using setup_stream_succeeds [of failing_camera "replicate 153600 0"]
  by (simp add: xioctl_failing_camera failing_camera_fields)

lemma main_stalled_camera:
  "main stalled_camera =
     Some (Return 1, \<lparr>bytesused = 153600, mapped = replicate 153600 0,
                      trace = setup_events @ [warming_up, Select 2 0,
                                              Perror ''Timeout waiting for frame'']\<rparr>)"
  by (simp add: main_def setup_stream_stalled_camera warmup.simps [of _ 0] stalled_camera_fields
        Let_def emit_def warming_up_def)


lemma main_failing_camera: "map_option fst (main failing_camera) = Some (Return 0)"
  by (simp add: main_def setup_stream_failing_camera warmup.simps xioctl_failing_camera
        failing_camera_fields Let_def emit_def dequeued_def fill_buf_def capture_final_def
        cleanup_def warming_up_def)

text \<open>
  Claim C6 as stated fails twice. When the first wait times out, \<^verbatim>\<open>main\<close> returns 1 with
  the report of the timeout as its last call: there is no stream-off and no close. When
  every dequeue and every requeue fails, the run is not aborted: \<^verbatim>\<open>main\<close> returns 0.
\<close>

theorem dequeue_loop_failure_counterexample:
  "map_option (apsnd trace) (main stalled_camera) =
     Some (Return 1, setup_events @ [warming_up, Select 2 0, Perror ''Timeout waiting for frame''])
   \<and> Xioctl VIDIOC_STREAMOFF \<notin> set (setup_events
         @ [warming_up, Select 2 0, Perror ''Timeout waiting for frame''])
   \<and> Close \<notin> set (setup_events @ [warming_up, Select 2 0, Perror ''Timeout waiting for frame''])
   \<and> xioctl failing_camera VIDIOC_DQBUF 0 = Some (- 1)
   \<and> xioctl failing_camera VIDIOC_QBUF 1 = Some (- 1)
   \<and> map_option fst (main failing_camera) = Some (Return 0)"
  by (simp add: main_stalled_camera main_failing_camera xioctl_failing_camera setup_events_quiet
        warming_up_def)

lemma not_in_replicated: "x \<notin> set xs \<Longrightarrow> x \<notin> set (concat (replicate n xs))"
  by (induction n) simp_all

text \<open>
  Claim C6, as amended. Once the stream has started, a wait of the loop that does not
  report a ready frame is fatal: \<^verbatim>\<open>main\<close> returns 1 at once, its last call is the report
  of the timeout, and it calls neither stream-off nor close.
\<close>

theorem dequeue_loop_timeout_fatal:
  assumes "setup_stream dev = Some (Next, s0)" "k < 10" "select_ret dev k \<le> 0"
    and "\<forall>j<k. 0 < select_ret dev j \<and> xioctl dev VIDIOC_DQBUF j \<noteq> None
                \<and> xioctl dev VIDIOC_QBUF (j + 1) \<noteq> None"
  shows "\<exists>s. main dev = Some (Return 1, s)
           \<and> last (trace s) = Perror ''Timeout waiting for frame''
           \<and> Xioctl VIDIOC_STREAMOFF \<notin> set (trace s) \<and> Close \<notin> set (trace s)"
proof -
  from main_timeout [OF assms]
  obtain s where s: "main dev = Some (Return 1, s)"
    "trace s = setup_events @ warming_up # concat (map iteration_events [0..<k])
               @ [Select 2 0, Perror ''Timeout waiting for frame'']"
    by blast
  have k9: "k \<le> 9" using assms(2) by simp
  have "last (trace s) = Perror ''Timeout waiting for frame''"
    "Xioctl VIDIOC_STREAMOFF \<notin> set (trace s)" "Close \<notin> set (trace s)"
    unfolding s(2) early_iterations [OF k9]
    by (simp_all add: setup_events_quiet warming_up_def not_in_replicated)
  with s(1) show ?thesis
    by blast
qed

text \<open>The theorem of C6 at \<open>stalled_camera\<close>, whose first wait times out.\<close>

theorem dequeue_loop_timeout_fatal_witness:
  "\<exists>s. main stalled_camera = Some (Return 1, s)
     \<and> last (trace s) = Perror ''Timeout waiting for frame''
     \<and> Xioctl VIDIOC_STREAMOFF \<notin> set (trace s) \<and> Close \<notin> set (trace s)"
  by (rule dequeue_loop_timeout_fatal [OF setup_stream_stalled_camera, of 0])
     (simp_all add: stalled_camera_fields)

subsection \<open>Empty frame and encoder failure\<close>

text \<open>
  Claim C8. Let the stream start, every wait succeed, every call of the loop return and
  the tenth dequeue succeed, and let stream-off return. If that dequeue reports zero bytes
  used, or if the allocation succeeds, the buffer holds a full frame and the JPEG writer
  fails, then \<^verbatim>\<open>main\<close> returns 0, its last two calls are stream-off and close, and before
  them it printed \<^verbatim>\<open>Error: Captured 0 bytes\<close> (without converting or encoding) in the
  first case and \<^verbatim>\<open>Error: Failed to write JPEG file.\<close> (after the one call of the
  encoder) in the second.
\<close>

theorem capture_soft_failures:
  assumes "setup_stream dev = Some (Next, s0)"
    and "\<forall>i<10. 0 < select_ret dev i \<and> xioctl dev VIDIOC_DQBUF i \<noteq> None"
    and "\<forall>i<9. xioctl dev VIDIOC_QBUF (i + 1) \<noteq> None"
    and "xioctl dev VIDIOC_DQBUF 9 = Some r9" "0 \<le> r9"
    and "xioctl dev VIDIOC_STREAMOFF 0 = Some r_off"
    and "buf_bytesused dev VIDIOC_DQBUF 9 = 0
         \<or> (malloc_ret dev = Some junk \<and> 153600 \<le> length (frame dev 9)
            \<and> stbi_write_jpg_ret dev = 0)"
  shows "\<exists>s pre. main dev = Some (Return 0, s)
           \<and> trace s = pre @ [Xioctl VIDIOC_STREAMOFF, Close]
           \<and> (if buf_bytesused dev VIDIOC_DQBUF 9 = 0
               then Printf ''Error: Captured 0 bytes\<newline>'' [] \<in> set pre
                    \<and> filter is_convert pre = [] \<and> filter is_write_jpg pre = []
               else Printf ''Error: Failed to write JPEG file.\<newline>'' [] \<in> set pre
                    \<and> length (filter is_write_jpg pre) = 1)"
proof -
  have "\<exists>s'. warmup dev 0 (emit warming_up s0) = Some (Next, s')
           \<and> trace s' = trace (emit warming_up s0) @ concat (map iteration_events [0..<10])
           \<and> (\<forall>r. (0::nat) < 10 \<longrightarrow> xioctl dev VIDIOC_DQBUF 9 = Some r \<longrightarrow> 0 \<le> r \<longrightarrow>
                  bytesused s' = buf_bytesused dev VIDIOC_DQBUF 9 \<and> mapped s' = frame dev 9)"
    using assms(2,3) by (intro warmup_completes [where n = 10]) auto
  then obtain s1 where w: "warmup dev 0 (emit warming_up s0) = Some (Next, s1)"
    and t1: "trace s1 = setup_events @ warming_up # concat (map iteration_events [0..<10])"
    and b1: "bytesused s1 = buf_bytesused dev VIDIOC_DQBUF 9" "mapped s1 = frame dev 9"
    using assms(4,5) setup_stream_trace [OF assms(1)] by auto
  note m = main_after_setup [OF assms(1) w]
  note c = cleanup_returns [OF assms(6)]
  have q: "filter is_convert (trace s1) = []" "filter is_write_jpg (trace s1) = []"
    by (simp_all add: t1 ten_iterations filter_replicated_empty warming_up_def setup_events_quiet)
  show ?thesis
  proof (cases "buf_bytesused dev VIDIOC_DQBUF 9 = 0")
    case True
    let ?pre = "trace s1 @ [Printf ''Error: Captured 0 bytes\<newline>'' []]"
    have "main dev = Some (Return 0, s1\<lparr>trace := ?pre @ [Xioctl VIDIOC_STREAMOFF, Close]\<rparr>)"
      using m c capture_final_empty [of s1 dev] True b1 by (simp add: emit_def)
    then show ?thesis
      using True q
      by (intro exI [of _ "s1\<lparr>trace := ?pre @ [Xioctl VIDIOC_STREAMOFF, Close]\<rparr>"] exI [of _ ?pre])
         simp
  next
    case False
    then have pos: "0 < bytesused s1" using b1 by (simp add: word_neq_0_conv)
    from False assms(7) have j: "malloc_ret dev = Some junk" "153600 \<le> length (mapped s1)"
      "stbi_write_jpg_ret dev = 0" using b1 by auto
    from capture_final_convert [OF pos j(1,2)] j(3)
    obtain rgb where cf: "capture_final dev s1 =
              (Next, s1\<lparr>trace := trace s1 @
                 [Printf ''Captured Raw Frame: %d bytes. Converting...\<newline>'' [sint (bytesused s1)],
                  Malloc 230400, Convert (mapped s1) 320 240,
                  Write_jpg ''image.jpg'' 320 240 3 rgb 90,
                  Printf ''Error: Failed to write JPEG file.\<newline>'' [], Free]\<rparr>)"
      by auto
    let ?pre = "trace s1 @
                 [Printf ''Captured Raw Frame: %d bytes. Converting...\<newline>'' [sint (bytesused s1)],
                  Malloc 230400, Convert (mapped s1) 320 240,
                  Write_jpg ''image.jpg'' 320 240 3 rgb 90,
                  Printf ''Error: Failed to write JPEG file.\<newline>'' [], Free]"
    have "main dev = Some (Return 0, s1\<lparr>trace := ?pre @ [Xioctl VIDIOC_STREAMOFF, Close]\<rparr>)"
      using m c cf by simp
    then show ?thesis
      using False q
      by (intro exI [of _ "s1\<lparr>trace := ?pre @ [Xioctl VIDIOC_STREAMOFF, Close]\<rparr>"] exI [of _ ?pre])
         simp
  qed
qed

lemma empty_frame_camera_fields:
  "open_ret empty_frame_camera = 3" "buf_bytesused empty_frame_camera req k = 0"
  "mmap_ret empty_frame_camera = Some (replicate 153600 0)" "select_ret empty_frame_camera i = 1"
  by (simp_all add: empty_frame_camera_def good_camera_def)

lemma xioctl_empty_frame_camera: "xioctl empty_frame_camera req k = Some 0"
  by (simp add: xioctl_def empty_frame_camera_def good_camera_def xioctl_attempt.simps)

lemma setup_stream_empty_frame_camera:
  "setup_stream empty_frame_camera =
     Some (Next, \<lparr>bytesused = 0, mapped = replicate 153600 0, trace = setup_events\<rparr>)"
  using setup_stream_succeeds [of empty_frame_camera "replicate 153600 0"]
  by (simp add: xioctl_empty_frame_camera empty_frame_camera_fields)

lemma broken_encoder_camera_fields:
  "open_ret broken_encoder_camera = 3" "buf_bytesused broken_encoder_camera req k = 153600"
  "mmap_ret broken_encoder_camera = Some (replicate 153600 0)"
  "select_ret broken_encoder_camera i = 1" "malloc_ret broken_encoder_camera = Some (\<lambda>n. 0)"
  "frame broken_encoder_camera k = replicate 153600 (of_nat k)"
  "stbi_write_jpg_ret broken_encoder_camera = 0"
  by (simp_all add: broken_encoder_camera_def good_camera_def)

lemma xioctl_broken_encoder_camera: "xioctl broken_encoder_camera req k = Some 0"
  by (simp add: xioctl_def broken_encoder_camera_def good_camera_def xioctl_attempt.simps)

lemma setup_stream_broken_encoder_camera:
  "setup_stream broken_encoder_camera =
     Some (Next, \<lparr>bytesused = 153600, mapped = replicate 153600 0, trace = setup_events\<rparr>)"
  using setup_stream_succeeds [of broken_encoder_camera "replicate 153600 0"]
  by (simp add: xioctl_broken_encoder_camera broken_encoder_camera_fields)

text \<open>The theorem of C8 at \<open>empty_frame_camera\<close> and at \<open>broken_encoder_camera\<close>.\<close>

theorem capture_soft_failures_witness:
  "(\<exists>s pre. main empty_frame_camera = Some (Return 0, s)
        \<and> trace s = pre @ [Xioctl VIDIOC_STREAMOFF, Close]
        \<and> Printf ''Error: Captured 0 bytes\<newline>'' [] \<in> set pre
        \<and> filter is_convert pre = [] \<and> filter is_write_jpg pre = [])
   \<and> (\<exists>s pre. main broken_encoder_camera = Some (Return 0, s)
        \<and> trace s = pre @ [Xioctl VIDIOC_STREAMOFF, Close]
        \<and> Printf ''Error: Failed to write JPEG file.\<newline>'' [] \<in> set pre
        \<and> length (filter is_write_jpg pre) = 1)"
proof
  show "\<exists>s pre. main empty_frame_camera = Some (Return 0, s)
        \<and> trace s = pre @ [Xioctl VIDIOC_STREAMOFF, Close]
        \<and> Printf ''Error: Captured 0 bytes\<newline>'' [] \<in> set pre
        \<and> filter is_convert pre = [] \<and> filter is_write_jpg pre = []"
    using capture_soft_failures [OF setup_stream_empty_frame_camera, of 0 0 "\<lambda>n. 0"]
    by (simp add: xioctl_empty_frame_camera empty_frame_camera_fields)
  show "\<exists>s pre. main broken_encoder_camera = Some (Return 0, s)
        \<and> trace s = pre @ [Xioctl VIDIOC_STREAMOFF, Close]
        \<and> Printf ''Error: Failed to write JPEG file.\<newline>'' [] \<in> set pre
        \<and> length (filter is_write_jpg pre) = 1"
    using capture_soft_failures [OF setup_stream_broken_encoder_camera, of 0 0 "\<lambda>n. 0"]
    by (simp add: xioctl_broken_encoder_camera broken_encoder_camera_fields)
qed

section \<open>Properties of the serial command program\<close>

subsection \<open>What a call adds to the events and the files\<close>

lemma acts_say [simp]: "acts (say e s) = acts s @ [e]"
  and files_say [simp]: "files (say e s) = files s"
  and calls_say [simp]: "calls (say e s) = calls s"
  by (simp_all add: say_def)

lemma motor_cmds_simps [simp]:
  "motor_cmds [] = []"
  "motor_cmds (es @ es') = motor_cmds es @ motor_cmds es'"
  "motor_cmds (e # es) = (case enable_of e of None \<Rightarrow> [] | Some b \<Rightarrow> [b]) @ motor_cmds es"
  by (simp_all add: motor_cmds_def List.map_filter_def split: option.splits)

lemma pwm_path_enable: "pwm_path ''enable'' = enable_path"
  by (simp add: pwm_path_def PWM_CHIP_PATH_def PWM_CHANNEL_def show_int_def digits.simps
        enable_path_def)

lemma show_int_constants:
  "show_int PWM_CHANNEL = ''0''" "show_int PWM_PERIOD_NS = ''1000000''"
  "show_int PWM_DUTY_NS = ''500000''"
  by (simp_all add: show_int_def PWM_CHANNEL_def PWM_PERIOD_NS_def PWM_DUTY_NS_def digits.simps)

lemma pwm_write_file_acts:
  "\<exists>es. acts (snd (pwm_write_file io f v s)) = acts s @ Pwm_write_file f v # es
        \<and> motor_cmds es = [] \<and> filter is_echo es = [] \<and> List.map_filter write_of es = []"
  by (cases "io (calls s)")
     (simp_all add: pwm_write_file_def Let_def List.map_filter_def)

lemma pwm_write_file_calls [simp]:
  "calls (snd (pwm_write_file io f v s)) = calls s + 1"
  by (cases "io (calls s)") (simp_all add: pwm_write_file_def Let_def)

lemma pwm_write_file_motor [simp]:
  "motor_cmds (acts (snd (pwm_write_file io f v s))) =
     motor_cmds (acts s) @ (if f = ''enable'' then [v = ''1''] else [])"
  using pwm_write_file_acts [of io f v s] by auto

lemma pwm_write_file_echo [simp]:
  "filter is_echo (acts (snd (pwm_write_file io f v s))) = filter is_echo (acts s)"
  using pwm_write_file_acts [of io f v s] by auto

lemma pwm_control_motor [simp]:
  "motor_cmds (acts (pwm_control io st s)) = motor_cmds (acts s) @ [st \<noteq> 0]"
  by (simp add: pwm_control_def)

lemma pwm_control_echo [simp]:
  "filter is_echo (acts (pwm_control io st s)) = filter is_echo (acts s)"
  by (simp add: pwm_control_def)

subsection \<open>The loops\<close>

lemma process_byte_motor:
  "motor_cmds (acts (process_byte io c s)) =
     motor_cmds (acts s) @ (if c = CHR ''A'' \<or> c = CHR ''a'' then [True]
                             else if c = CHR ''B'' \<or> c = CHR ''b'' then [False] else [])"
  by (simp add: process_byte_def Let_def)

lemma process_byte_echo:
  "filter is_echo (acts (process_byte io c s)) = filter is_echo (acts s) @ [echo_of c]"
  by (simp add: process_byte_def Let_def echo_of_def)

lemma process_byte_other:
  assumes "c \<notin> set ''AaBb''"
  shows "files (process_byte io c s) = files s" "calls (process_byte io c s) = calls s"
  using assms by (simp_all add: process_byte_def Let_def)

lemma process_bytes_motor:
  "motor_cmds (acts (process_bytes io cs s)) =
     motor_cmds (acts s) @ map (\<lambda>c. c = CHR ''A'' \<or> c = CHR ''a'') (filter (\<lambda>c. c \<in> set ''AaBb'') cs)"
  by (induction cs arbitrary: s) (auto simp: process_byte_motor)

lemma process_bytes_echo:
  "filter is_echo (acts (process_bytes io cs s)) = filter is_echo (acts s) @ map echo_of cs"
  by (induction cs arbitrary: s) (simp_all add: process_byte_echo)

lemma process_bytes_append:
  "process_bytes io (xs @ ys) s = process_bytes io ys (process_bytes io xs s)"
  by (induction xs arbitrary: s) simp_all

lemma serial_loop_motor:
  "motor_cmds (acts (snd (serial_loop io sc s))) =
     motor_cmds (acts (process_bytes io (received sc) s))"
  by (induction io sc s rule: serial_loop.induct)
     (simp_all add: process_bytes_append split: read_result.splits)

lemma serial_loop_echo:
  "filter is_echo (acts (snd (serial_loop io sc s))) =
     filter is_echo (acts (process_bytes io (received sc) s))"
  by (induction io sc s rule: serial_loop.induct)
     (simp_all add: process_bytes_append split: read_result.splits)


subsection \<open>Initialisation and main\<close>

lemma pwm_write_file_files:
  "files (snd (pwm_write_file io f v s)) =
     (if io (calls s) = Written then (files s)(pwm_path f \<mapsto> v) else files s)"
  by (cases "io (calls s)") (simp_all add: pwm_write_file_def Let_def)

lemma pwm_write_file_writes [simp]:
  "List.map_filter write_of (acts (snd (pwm_write_file io f v s))) =
     List.map_filter write_of (acts s) @ [(f, v)]"
  using pwm_write_file_acts [of io f v s] by (auto simp: List.map_filter_def)

lemma map_filter_append [simp]:
  "List.map_filter f (xs @ ys) = List.map_filter f xs @ List.map_filter f ys"
  by (simp add: List.map_filter_def)

lemma pwm_write_file_enable:
  assumes "io (calls s) = Written"
  shows "files (snd (pwm_write_file io ''enable'' v s)) enable_path = Some v"
  using assms by (simp add: pwm_write_file_files pwm_path_enable)

lemma pwm_init_writes:
  assumes "fst (pwm_init io s) = 0"
  shows "List.map_filter write_of (acts (snd (pwm_init io s))) =
           List.map_filter write_of (acts s)
           @ [(''export'', ''0''), (''period'', ''1000000''), (''duty_cycle'', ''500000''),
              (''enable'', ''0'')]"
  using assms
  by (simp add: pwm_init_def Let_def split_def show_int_constants List.map_filter_simps
        split: if_splits)

lemma pwm_init_files:
  assumes "fst (pwm_init io s) = 0" "io (calls s + 3) = Written"
  shows "files (snd (pwm_init io s)) enable_path = Some ''0''"
  using assms
  by (simp add: pwm_init_def Let_def split_def pwm_write_file_enable numeral_3_eq_3
        split: if_splits)

lemma pwm_init_motor:
  "motor_cmds (acts (snd (pwm_init io s))) =
     motor_cmds (acts s) @ (if fst (pwm_init io s) = 0 then [False] else [])"
  by (simp add: pwm_init_def Let_def split_def)

lemma configure_serial_motor [simp]:
  "motor_cmds (acts (snd (configure_serial env baud s))) = motor_cmds (acts s)"
  by (simp add: configure_serial_def Let_def split_def)

lemma configure_serial_ok:
  "fst (configure_serial env baud s) = 0 \<longleftrightarrow> tcgetattr_ret env = 0 \<and> tcsetattr_ret env = 0"
  by (simp add: configure_serial_def Let_def split_def)

lemma serial_main_motor:
  "motor_cmds (acts (snd (serial_main env d b))) =
     (if fst (pwm_init (sysfs env) \<lparr>files = sysfs_before env, calls = 0, acts = []\<rparr>) = 0
      then [False] else [])
     @ (if 0 \<le> serial_open_ret env \<and> tcgetattr_ret env = 0 \<and> tcsetattr_ret env = 0
        then map (\<lambda>c. c = CHR ''A'' \<or> c = CHR ''a'')
               (filter (\<lambda>c. c \<in> set ''AaBb'') (received (script env)))
        else [])"
  by (simp add: serial_main_def Let_def split_def pwm_init_motor serial_loop_motor
        process_bytes_motor configure_serial_ok)

subsection \<open>Command routing\<close>

lemma process_byte_enable:
  assumes "io (calls s) = Written"
  shows "files (process_byte io (CHR ''A'') s) enable_path = Some ''1''"
    "files (process_byte io (CHR ''a'') s) enable_path = Some ''1''"
    "files (process_byte io (CHR ''B'') s) enable_path = Some ''0''"
    "files (process_byte io (CHR ''b'') s) enable_path = Some ''0''"
  using assms by (simp_all add: process_byte_def pwm_control_def pwm_write_file_enable Let_def)

text \<open>
  Claim C7. For every sequence of bytes handed to the command loop, whether the bytes of
  one \<^verbatim>\<open>read\<close> or all the bytes the \<^verbatim>\<open>while\<close> loop receives, the requests made to the
  motor are, in order, enable(true) for each \<open>A\<close> or \<open>a\<close> and enable(false) for each \<open>B\<close>
  or \<open>b\<close>. Any other byte makes no call of \<^verbatim>\<open>pwm_write_file\<close> and leaves the sysfs files
  as they are. Where the write goes through, \<open>A\<close> and \<open>a\<close> leave \<^verbatim>\<open>enable\<close> at \<^verbatim>\<open>"1"\<close> and
  \<open>B\<close> and \<open>b\<close> at \<^verbatim>\<open>"0"\<close>. The input \<^verbatim>\<open>"xA1Bz"\<close> makes enable(true), then enable(false),
  and nothing else.
\<close>

theorem serial_commands:
  "motor_cmds (acts (process_bytes io cs s)) =
     motor_cmds (acts s)
     @ map (\<lambda>c. c = CHR ''A'' \<or> c = CHR ''a'') (filter (\<lambda>c. c \<in> set ''AaBb'') cs)
   \<and> motor_cmds (acts (snd (serial_loop io sc s))) =
     motor_cmds (acts s)
     @ map (\<lambda>c. c = CHR ''A'' \<or> c = CHR ''a'') (filter (\<lambda>c. c \<in> set ''AaBb'') (received sc))
   \<and> (c \<notin> set ''AaBb'' \<longrightarrow>
        files (process_byte io c s) = files s \<and> calls (process_byte io c s) = calls s
        \<and> motor_cmds (acts (process_byte io c s)) = motor_cmds (acts s))
   \<and> (io (calls s) = Written \<longrightarrow>
        files (process_byte io (CHR ''A'') s) enable_path = Some ''1''
        \<and> files (process_byte io (CHR ''a'') s) enable_path = Some ''1''
        \<and> files (process_byte io (CHR ''B'') s) enable_path = Some ''0''
        \<and> files (process_byte io (CHR ''b'') s) enable_path = Some ''0'')
   \<and> motor_cmds (acts (process_bytes io ''xA1Bz'' s)) = motor_cmds (acts s) @ [True, False]"
proof (intro conjI impI)
  show "motor_cmds (acts (snd (serial_loop io sc s))) =
     motor_cmds (acts s)
     @ map (\<lambda>c. c = CHR ''A'' \<or> c = CHR ''a'') (filter (\<lambda>c. c \<in> set ''AaBb'') (received sc))"
    by (simp only: serial_loop_motor process_bytes_motor)
  show "motor_cmds (acts (process_bytes io ''xA1Bz'' s)) = motor_cmds (acts s) @ [True, False]"
    unfolding process_bytes_motor by simp
next
  assume n: "c \<notin> set ''AaBb''"
  then show "motor_cmds (acts (process_byte io c s)) = motor_cmds (acts s)"
    by (simp add: process_byte_motor)
  show "files (process_byte io c s) = files s" "calls (process_byte io c s) = calls s"
    by (rule process_byte_other [OF n])+
next
  assume w: "io (calls s) = Written"
  show "files (process_byte io (CHR ''A'') s) enable_path = Some ''1''"
    "files (process_byte io (CHR ''a'') s) enable_path = Some ''1''"
    "files (process_byte io (CHR ''B'') s) enable_path = Some ''0''"
    "files (process_byte io (CHR ''b'') s) enable_path = Some ''0''"
    using w by (simp_all only: process_byte_enable [of io s])
qed (simp only: process_bytes_motor)

text \<open>The theorem of C7 at the input \<^verbatim>\<open>"xA1Bz"\<close> and at the bytes \<open>x\<close> and \<open>B\<close>.\<close>

theorem serial_commands_witness:
  "motor_cmds (acts (process_bytes all_written ''xA1Bz'' left_enabled)) = [True, False]
   \<and> CHR ''x'' \<notin> set ''AaBb''
   \<and> files (process_byte all_written (CHR ''x'') left_enabled) = files left_enabled
   \<and> all_written (calls left_enabled) = Written
   \<and> files (process_byte all_written (CHR ''B'') left_enabled) enable_path = Some ''0''"
  using serial_commands [of all_written "''xA1Bz''" left_enabled "[]" "CHR ''x''"]
  by (simp add: all_written_def left_enabled_def)

subsection \<open>Echo\<close>

text \<open>
  Claim C9. Every byte handed to the command loop is echoed, in order and once: the
  echoes among the events are exactly one per received byte, a byte that is printable or
  is \<^verbatim>\<open>\n\<close>, \<^verbatim>\<open>\r\<close> or \<^verbatim>\<open>\t\<close> by \<^verbatim>\<open>putchar\<close> of the byte itself, any other byte by
  \<^verbatim>\<open>printf("[0x%02X]", c)\<close>. The command bytes \<open>A\<close>, \<open>a\<close>, \<open>B\<close>, \<open>b\<close> are printable: each
  of them both makes its request to the motor and is echoed verbatim.
\<close>

theorem serial_echo:
  "filter is_echo (acts (process_bytes io cs s)) = filter is_echo (acts s) @ map echo_of cs
   \<and> filter is_echo (acts (snd (serial_loop io sc s))) =
       filter is_echo (acts s) @ map echo_of (received sc)
   \<and> echo_of c = (if isprint c \<or> c = CHR 0x0A \<or> c = CHR 0x0D \<or> c = CHR 0x09 then Putchar c
                   else Out ''[0x%02X]'' [Num (of_char c)])
   \<and> map echo_of ''AaBb'' = map Putchar ''AaBb''
   \<and> motor_cmds (acts (process_bytes io ''AaBb'' s)) = motor_cmds (acts s) @ [True, True, False, False]
   \<and> filter is_echo (acts (process_bytes io ''AaBb'' s)) = filter is_echo (acts s) @ map Putchar ''AaBb''
   \<and> echo_of (CHR 0x01) = Out ''[0x%02X]'' [Num 1]"
proof (intro conjI)
  show "filter is_echo (acts (snd (serial_loop io sc s))) =
       filter is_echo (acts s) @ map echo_of (received sc)"
    by (simp only: serial_loop_echo process_bytes_echo)
  show e: "map echo_of ''AaBb'' = map Putchar ''AaBb''"
    by (simp add: echo_of_def isprint_def)
  show "filter is_echo (acts (process_bytes io ''AaBb'' s)) = filter is_echo (acts s) @ map Putchar ''AaBb''"
    by (simp only: process_bytes_echo e)
  show "motor_cmds (acts (process_bytes io ''AaBb'' s)) = motor_cmds (acts s) @ [True, True, False, False]"
    unfolding process_bytes_motor by simp
  show "echo_of (CHR 0x01) = Out ''[0x%02X]'' [Num 1]"
    by (simp add: echo_of_def isprint_def)
qed (simp_all only: process_bytes_echo echo_of_def)

text \<open>The theorem of C9 at a command byte, a newline and a control byte.\<close>

theorem serial_echo_witness:
  "filter is_echo (acts (process_bytes all_written [CHR ''A'', CHR 0x0A, CHR 0x01] left_enabled))
     = [Putchar (CHR ''A''), Putchar (CHR 0x0A), Out ''[0x%02X]'' [Num 1]]"
  using serial_echo [of all_written "[CHR ''A'', CHR 0x0A, CHR 0x01]" left_enabled "[]" "CHR ''A''",
      THEN conjunct1]
  by (simp add: left_enabled_def echo_of_def isprint_def)

subsection \<open>The state of the PWM after initialisation\<close>

text \<open>
  What \<^verbatim>\<open>pwm_init\<close> does when it returns 0: its calls of \<^verbatim>\<open>pwm_write_file\<close> are export,
  period, duty cycle and \<^verbatim>\<open>enable\<close> with \<^verbatim>\<open>"0"\<close>, in this order, and where that last
  write goes through \<^verbatim>\<open>enable\<close> holds \<^verbatim>\<open>"0"\<close>. In a run of \<^verbatim>\<open>main\<close> the requests to the
  motor are the enable(false) of an initialisation that got that far, followed by those of
  the received command bytes: enable(true) is requested only for a received \<open>A\<close> or \<open>a\<close>.
\<close>

lemma pwm_init_disables:
  "(fst (pwm_init io s) = 0 \<longrightarrow>
      List.map_filter write_of (acts (snd (pwm_init io s))) =
        List.map_filter write_of (acts s)
        @ [(''export'', ''0''), (''period'', ''1000000''), (''duty_cycle'', ''500000''),
           (''enable'', ''0'')]
      \<and> (io (calls s + 3) = Written \<longrightarrow> files (snd (pwm_init io s)) enable_path = Some ''0''))
   \<and> motor_cmds (acts (snd (serial_main env d b))) =
       (if fst (pwm_init (sysfs env) \<lparr>files = sysfs_before env, calls = 0, acts = []\<rparr>) = 0
        then [False] else [])
       @ (if 0 \<le> serial_open_ret env \<and> tcgetattr_ret env = 0 \<and> tcsetattr_ret env = 0
          then map (\<lambda>c. c = CHR ''A'' \<or> c = CHR ''a'')
                 (filter (\<lambda>c. c \<in> set ''AaBb'') (received (script env)))
          else [])
   \<and> (True \<in> set (motor_cmds (acts (snd (serial_main env d b)))) \<longrightarrow>
        (\<exists>c \<in> set (received (script env)). c = CHR ''A'' \<or> c = CHR ''a''))"
proof (intro conjI impI)
  assume "True \<in> set (motor_cmds (acts (snd (serial_main env d b))))"
  then show "\<exists>c \<in> set (received (script env)). c = CHR ''A'' \<or> c = CHR ''a''"
    unfolding serial_main_motor by (auto split: if_splits)
next
  assume z: "fst (pwm_init io s) = 0"
  show "List.map_filter write_of (acts (snd (pwm_init io s))) =
        List.map_filter write_of (acts s)
        @ [(''export'', ''0''), (''period'', ''1000000''), (''duty_cycle'', ''500000''),
           (''enable'', ''0'')]"
    by (rule pwm_init_writes [OF z])
  assume "io (calls s + 3) = Written"
  with z show "files (snd (pwm_init io s)) enable_path = Some ''0''"
    by (rule pwm_init_files)
qed (simp only: serial_main_motor)

lemma pwm_init_all_written:
  "fst (pwm_init all_written left_enabled) = 0"
  by (simp add: pwm_init_def Let_def split_def pwm_write_file_def all_written_def)

lemma pwm_init_disables_at_quiet_line:
  "fst (pwm_init all_written left_enabled) = 0
   \<and> all_written (calls left_enabled + 3) = Written
   \<and> List.map_filter write_of (acts (snd (pwm_init all_written left_enabled))) =
        [(''export'', ''0''), (''period'', ''1000000''), (''duty_cycle'', ''500000''),
         (''enable'', ''0'')]
   \<and> files (snd (pwm_init all_written left_enabled)) enable_path = Some ''0''
   \<and> motor_cmds (acts (snd (serial_main quiet_line None None))) = [False, True, False]
   \<and> True \<in> set (motor_cmds (acts (snd (serial_main quiet_line None None))))
   \<and> (\<exists>c \<in> set (received (script quiet_line)). c = CHR ''A'' \<or> c = CHR ''a'')"
proof -
  have q: "sysfs quiet_line = all_written" "serial_open_ret quiet_line = 3"
    "tcgetattr_ret quiet_line = 0" "tcsetattr_ret quiet_line = 0"
    "received (script quiet_line) = ''xA1Bz''"
    "\<lparr>files = sysfs_before quiet_line, calls = 0, acts = []\<rparr> = left_enabled"
    by (simp_all add: quiet_line_def left_enabled_def EINTR_def)
  have l: "acts left_enabled = []" "all_written (calls left_enabled + 3) = Written"
    by (simp_all add: left_enabled_def all_written_def)
  show ?thesis
    using pwm_init_disables [of all_written left_enabled quiet_line None None]
      pwm_init_all_written
    by (simp add: q l List.map_filter_simps)
qed

text \<open>
  Claim C10. The result of the write of \<^verbatim>\<open>"0"\<close> to \<^verbatim>\<open>enable\<close> is not tested, although the
  comment on it reads "Ensure it starts disabled" and the two writes before it are
  tested. On a channel that an earlier run left enabled, with a \<^verbatim>\<open>write\<close> to \<^verbatim>\<open>enable\<close>
  that fails, \<^verbatim>\<open>pwm_init\<close> makes its four calls, returns 0, and \<^verbatim>\<open>enable\<close> still holds
  \<^verbatim>\<open>"1"\<close>: initialisation has succeeded and the motor is not disabled.
\<close>

theorem pwm_init_leaves_enabled:
  "fst (pwm_init stuck_enable left_enabled) = 0
   \<and> List.map_filter write_of (acts (snd (pwm_init stuck_enable left_enabled))) =
        [(''export'', ''0''), (''period'', ''1000000''), (''duty_cycle'', ''500000''),
         (''enable'', ''0'')]
   \<and> files left_enabled enable_path = Some ''1''
   \<and> files (snd (pwm_init stuck_enable left_enabled)) enable_path = Some ''1''"
  by (simp add: pwm_init_def Let_def split_def pwm_write_file_def stuck_enable_def left_enabled_def
        say_def show_int_constants pwm_path_def PWM_CHIP_PATH_def enable_path_def EBUSY_def
        List.map_filter_simps)


end
